theory Spec2Isabelle
  imports
    Main
    "HOL-Library.Multiset"
    "HOL-Library.Char_ord"
    "HOL-Library.List_Lexorder"
    "HOL-Library.Product_Lexorder"
begin

section \<open>github-ci-status: status aggregation, formatting and remote resolution\<close>

text \<open>
  A shallow embedding of \<^verbatim>\<open>index.js\<close> and \<^verbatim>\<open>lib/github-utils.js\<close>.
  JavaScript strings are modelled as \<^typ>\<open>string\<close>: one \<^typ>\<open>char\<close> stands for one
  code unit, which is exact for the ASCII keys, state names and host names the
  program compares. JavaScript numbers that are array indices or comparator
  results are \<^typ>\<open>int\<close>. An exception is a value of \<open>js_error\<close> on the left of a
  sum.
\<close>

subsection \<open>JavaScript primitives used by the program\<close>

datatype js_error = JsError (errName: string) (errMessage: string)

text \<open>\<^verbatim>\<open>new Error(message)\<close>: the \<^verbatim>\<open>name\<close> of a plain error is \<^verbatim>\<open>'Error'\<close>.\<close>

definition newError :: "string \<Rightarrow> js_error" where
  "newError message = JsError ''Error'' message"

text \<open>\<^verbatim>\<open>Array.prototype.indexOf\<close>: the first index of the element, or \<open>-1\<close>.\<close>

fun indexFrom :: "int \<Rightarrow> string list \<Rightarrow> string \<Rightarrow> int" where
  "indexFrom i [] x = -1"
| "indexFrom i (y # ys) x = (if y = x then i else indexFrom (i + 1) ys x)"

definition indexOf :: "string list \<Rightarrow> string \<Rightarrow> int" where
  "indexOf xs x = indexFrom 0 xs x"

text \<open>\<^verbatim>\<open>array[i]\<close> for a number \<open>i\<close>: \<^verbatim>\<open>undefined\<close> (here \<open>None\<close>) out of range.\<close>

definition at :: "'a list \<Rightarrow> int \<Rightarrow> 'a option" where
  "at xs i = (if 0 \<le> i \<and> i < int (length xs) then Some (xs ! nat i) else None)"

text \<open>\<^verbatim>\<open>String.prototype.endsWith\<close>.\<close>

definition endsWith :: "string \<Rightarrow> string \<Rightarrow> bool" where
  "endsWith s suffix =
     (length suffix \<le> length s \<and> drop (length s - length suffix) s = suffix)"

text \<open>\<^verbatim>\<open>String.prototype.padEnd\<close> with the default filler, a space.\<close>

definition padEnd :: "string \<Rightarrow> nat \<Rightarrow> string" where
  "padEnd s w = s @ replicate (w - length s) CHR '' ''"

text \<open>\<^verbatim>\<open>Array.prototype.join\<close>.\<close>

fun join :: "string \<Rightarrow> string list \<Rightarrow> string" where
  "join sep [] = []"
| "join sep [x] = x"
| "join sep (x # y # ys) = x @ sep @ join sep (y # ys)"

text \<open>\<^verbatim>\<open>String.prototype.split\<close> with a one-character separator.\<close>

fun split :: "char \<Rightarrow> string \<Rightarrow> string list" where
  "split c [] = [[]]"
| "split c (x # xs) =
     (if x = c then [] # split c xs
      else (case split c xs of
              [] \<Rightarrow> [[x]]
            | s # ss \<Rightarrow> (x # s) # ss))"

subsection \<open>index.js: severity, overall state, exit code\<close>

record status =
  state :: string
  context' :: string
  target_url :: "string option"

definition stateBySeverity :: "string list" where
  "stateBySeverity =
     [''neutral'', ''success'', ''pending'', ''cancelled'', ''timed_out'',
      ''action_required'', ''failure'', ''error'']"

definition getState :: "status list \<Rightarrow> string" where
  "getState statuses =
     (let bestSeverity =
            foldl (\<lambda>maxSeverity st.
                     let severity = indexOf stateBySeverity (state st)
                     in max severity maxSeverity)
                  (-1) statuses
      in case at stateBySeverity bestSeverity of
           None \<Rightarrow> ''''
         | Some s \<Rightarrow> (if s = '''' then '''' else s))"

definition stateToExitCode :: "string \<Rightarrow> int" where
  "stateToExitCode st =
     (if st = ''neutral'' \<or> st = ''success'' then 0
      else if st = ''action_required'' \<or> st = ''cancelled'' \<or> st = ''error''
              \<or> st = ''failure'' \<or> st = ''timed_out'' then 1
      else if st = ''pending'' then 2
      else 3)"

subsection \<open>index.js: formatting\<close>

text \<open>
  The markers are the UTF-8 bytes of the source's glyphs (U+2714 U+FE0E,
  U+2716 U+FE0E, U+25E6, U+25CF); the colour code is passed as its decimal digits.
\<close>

definition colorize :: "bool \<Rightarrow> string \<Rightarrow> string \<Rightarrow> string" where
  "colorize useColor s code =
     (if useColor then CHR 0x1B # ''['' @ code @ ''m'' @ s @ CHR 0x1B # ''[39m'' else s)"

definition getStateMarker :: "string \<Rightarrow> bool \<Rightarrow> string" where
  "getStateMarker st useColor =
     (if st = ''success''
        then colorize useColor [CHR 0xE2, CHR 0x9C, CHR 0x94, CHR 0xEF, CHR 0xB8, CHR 0x8E] ''32''
      else if st = ''action_required'' \<or> st = ''cancelled'' \<or> st = ''error''
              \<or> st = ''failure'' \<or> st = ''timed_out''
        then colorize useColor [CHR 0xE2, CHR 0x9C, CHR 0x96, CHR 0xEF, CHR 0xB8, CHR 0x8E] ''31''
      else if st = ''neutral''
        then colorize useColor [CHR 0xE2, CHR 0x97, CHR 0xA6] ''30''
      else if st = ''pending''
        then colorize useColor [CHR 0xE2, CHR 0x97, CHR 0x8F] ''33''
      else '''')"

text \<open>
  JavaScript truthiness of \<^verbatim>\<open>status.target_url\<close>: an absent, \<^verbatim>\<open>null\<close> or empty
  target URL is falsy.
\<close>

definition hasTargetUrl :: "status \<Rightarrow> bool" where
  "hasTargetUrl st = (case target_url st of None \<Rightarrow> False | Some u \<Rightarrow> u \<noteq> '''')"

definition formatStatus :: "status \<Rightarrow> nat \<Rightarrow> bool \<Rightarrow> string" where
  "formatStatus st contextWidth useColor =
     (let stateMarker = getStateMarker (state st) useColor;
          context = padEnd (context' st) contextWidth;
          targetUrl = (case target_url st of
                         None \<Rightarrow> ''''
                       | Some u \<Rightarrow> if u = '''' then '''' else CHR 0x09 # u)
      in stateMarker @ [CHR 0x09] @ context @ targetUrl)"

definition formatStatuses :: "status list \<Rightarrow> bool \<Rightarrow> string" where
  "formatStatuses statuses useColor =
     (let contextWidth =
            (if \<not> list_ex hasTargetUrl statuses then 0
             else foldl (\<lambda>mx st. max mx (length (context' st))) 0 statuses)
      in join [CHR 0x0A] (map (\<lambda>st. formatStatus st contextWidth useColor) statuses))"

subsection \<open>lib/github-utils.js: remote entries and their order\<close>

text \<open>
  The configuration is the key/value object returned by \<^verbatim>\<open>getConfig\<close>, given as the
  list of its entries in \<^verbatim>\<open>Object.entries\<close> order; an object has each key once.
\<close>

type_synonym config = "(string \<times> string) list"

record remote =
  name :: string
  isPush :: bool
  url :: string

definition originNamesInLookupOrder :: "string list" where
  "originNamesInLookupOrder = [''upstream'', ''github'', ''origin'']"

text \<open>
  The regular expression \<^verbatim>\<open>/^remote\.(.*)\.((?:push)?url)$/\<close>: the key starts with
  \<^verbatim>\<open>remote.\<close>, ends with \<^verbatim>\<open>.url\<close> or \<^verbatim>\<open>.pushurl\<close>, and the captured name in
  between holds no line terminator (which \<^verbatim>\<open>.\<close> does not match; of these a
  \<^typ>\<open>char\<close> can hold the line feed and the carriage return). The greedy group
  tries the shorter suffix first. The result is the pair of the two groups.
\<close>

definition lineTerminator :: "char \<Rightarrow> bool" where
  "lineTerminator c = (c = CHR 0x0A \<or> c = CHR 0x0D)"

definition matchRemoteKey :: "string \<Rightarrow> (string \<times> string) option" where
  "matchRemoteKey key =
     (if take 7 key = ''remote.'' then
        (let rest = drop 7 key in
         if endsWith rest ''.url''
              \<and> \<not> list_ex lineTerminator (take (length rest - 4) rest)
           then Some (take (length rest - 4) rest, ''url'')
         else if endsWith rest ''.pushurl''
              \<and> \<not> list_ex lineTerminator (take (length rest - 8) rest)
           then Some (take (length rest - 8) rest, ''pushurl'')
         else None)
      else None)"

text \<open>The array \<^verbatim>\<open>remotes\<close> before sorting: \<^verbatim>\<open>map\<close> then \<^verbatim>\<open>filter(Boolean)\<close>.\<close>

definition remoteEntries :: "config \<Rightarrow> remote list" where
  "remoteEntries cfg =
     List.map_filter
       (\<lambda>(key, val). case matchRemoteKey key of
            None \<Rightarrow> None
          | Some (n, k) \<Rightarrow> Some \<lparr>name = n, isPush = (k = ''pushurl''), url = val\<rparr>)
       cfg"

text \<open>The error thrown by the comparator on two entries with one name and one kind.\<close>

definition duplicateConfigError :: "remote \<Rightarrow> js_error" where
  "duplicateConfigError remote1 =
     newError (''Duplicate config '' @ [CHR 0x27] @ ''remote.'' @ name remote1 @ ''.''
               @ (if isPush remote1 then ''push'' else '''') @ ''url'' @ [CHR 0x27])"

text \<open>
  The comparator passed to \<^verbatim>\<open>remotes.sort\<close>. \<^verbatim>\<open>branchRemote\<close> is \<open>None\<close> when it is
  \<^verbatim>\<open>undefined\<close>, which no name equals.
\<close>

definition compareRemotes :: "string option \<Rightarrow> remote \<Rightarrow> remote \<Rightarrow> js_error + int" where
  "compareRemotes branchRemote remote1 remote2 =
     (let name1 = name remote1;
          name2 = name remote2;
          isBranch1 = (Some name1 = branchRemote);
          isBranch2 = (Some name2 = branchRemote)
      in if isBranch1 \<noteq> isBranch2 then Inr (if isBranch1 then - 1 else 1)
         else
           let order1 = indexOf originNamesInLookupOrder name1;
               order2 = indexOf originNamesInLookupOrder name2
           in if order1 \<noteq> order2
                then Inr (if order1 = - 1 then 1
                          else if order2 = - 1 then - 1
                          else order1 - order2)
              else if name1 \<noteq> name2 then Inr (if name1 < name2 then - 1 else 1)
              else if isPush remote1 \<noteq> isPush remote2
                then Inr (if isPush remote1 then - 1 else 1)
              else Inl (duplicateConfigError remote1))"

text \<open>
  \<^verbatim>\<open>Array.prototype.sort\<close> with a comparator that may throw. The language leaves the
  algorithm to the engine; the model is an insertion sort, left to right, and an
  exception of the comparator ends the sort. A negative result puts the first argument
  before the second.
\<close>

fun insertSorted :: "('a \<Rightarrow> 'a \<Rightarrow> js_error + int) \<Rightarrow> 'a \<Rightarrow> 'a list \<Rightarrow> js_error + 'a list" where
  "insertSorted cmp x [] = Inr [x]"
| "insertSorted cmp x (y # ys) =
     (case cmp x y of
        Inl e \<Rightarrow> Inl e
      | Inr c \<Rightarrow>
          if c < 0 then Inr (x # y # ys)
          else (case insertSorted cmp x ys of
                  Inl e \<Rightarrow> Inl e
                | Inr zs \<Rightarrow> Inr (y # zs)))"

fun sortFrom :: "('a \<Rightarrow> 'a \<Rightarrow> js_error + int) \<Rightarrow> 'a list \<Rightarrow> 'a list \<Rightarrow> js_error + 'a list" where
  "sortFrom cmp acc [] = Inr acc"
| "sortFrom cmp acc (x # xs) =
     (case insertSorted cmp x acc of
        Inl e \<Rightarrow> Inl e
      | Inr acc' \<Rightarrow> sortFrom cmp acc' xs)"

definition arraySort :: "('a \<Rightarrow> 'a \<Rightarrow> js_error + int) \<Rightarrow> 'a list \<Rightarrow> js_error + 'a list" where
  "arraySort cmp xs = sortFrom cmp [] xs"

text \<open>\<^verbatim>\<open>getRemoteUrls\<close>: \<open>sortedRemotes\<close> is the array \<^verbatim>\<open>remotes\<close> after the sort.\<close>

definition sortedRemotes :: "config \<Rightarrow> string option \<Rightarrow> js_error + remote list" where
  "sortedRemotes cfg branchRemote = arraySort (compareRemotes branchRemote) (remoteEntries cfg)"

definition getRemoteUrls :: "config \<Rightarrow> string option \<Rightarrow> js_error + string list" where
  "getRemoteUrls cfg branchRemote =
     (case sortedRemotes cfg branchRemote of
        Inl e \<Rightarrow> Inl e
      | Inr remotes \<Rightarrow> Inr (map url remotes))"

subsection \<open>lib/github-utils.js: GitHub URLs\<close>

record git_url =
  hostname :: string
  pathname :: string

text \<open>
  A URL object is a reference paired with its contents; references are allocated from a
  counter, so two objects are the same object exactly when their references are equal.
\<close>

type_synonym url_obj = "nat \<times> git_url"

text \<open>Modelled from the spec: \<^verbatim>\<open>parseGitUrl\<close> of \<^verbatim>\<open>lib/git-utils.js\<close>, which is missing.
  The spec gives it as a collaborator that extracts host name and path or fails on
  unparseable input, and calls its results freshly parsed objects: what it extracts is
  the parameter \<open>parse\<close>, and each successful call allocates a new object.
\<close>

definition parseGitUrl ::
  "(string \<Rightarrow> js_error + git_url) \<Rightarrow> string \<Rightarrow> nat \<Rightarrow> (js_error + url_obj) \<times> nat" where
  "parseGitUrl parse gitUrl heap =
     (case parse gitUrl of
        Inl e \<Rightarrow> (Inl e, heap)
      | Inr u \<Rightarrow> (Inr (heap, u), Suc heap))"

text \<open>
  The host test of \<^verbatim>\<open>getGitHubUrls\<close>; \<open>gitHubHostEnv\<close> is \<^verbatim>\<open>process.env.GITHUB_HOST\<close>,
  \<open>None\<close> when unset.
\<close>

definition isGitHubHost :: "string option \<Rightarrow> string \<Rightarrow> bool" where
  "isGitHubHost gitHubHostEnv h =
     (h = ''github.com'' \<or> Some h = gitHubHostEnv \<or> endsWith h ''.github.com'')"

text \<open>The callback of \<^verbatim>\<open>map\<close> in \<^verbatim>\<open>getGitHubUrls\<close>; \<open>None\<close> is \<^verbatim>\<open>undefined\<close>.\<close>

definition tryGitHubUrl ::
  "string option \<Rightarrow> (string \<Rightarrow> js_error + git_url) \<Rightarrow> string \<Rightarrow> nat \<Rightarrow> url_obj option \<times> nat" where
  "tryGitHubUrl gitHubHostEnv parse remoteUrl heap =
     (case parseGitUrl parse remoteUrl heap of
        (Inl err, heap') \<Rightarrow> (None, heap')
      | (Inr parsed, heap') \<Rightarrow>
          if isGitHubHost gitHubHostEnv (hostname (snd parsed)) then (Some parsed, heap')
          else (None, heap'))"

fun mapGitHubUrls ::
  "string option \<Rightarrow> (string \<Rightarrow> js_error + git_url) \<Rightarrow> string list \<Rightarrow> nat
     \<Rightarrow> url_obj option list \<times> nat" where
  "mapGitHubUrls gitHubHostEnv parse [] heap = ([], heap)"
| "mapGitHubUrls gitHubHostEnv parse (remoteUrl # rest) heap =
     (case tryGitHubUrl gitHubHostEnv parse remoteUrl heap of
        (r, heap') \<Rightarrow>
          (case mapGitHubUrls gitHubHostEnv parse rest heap' of
             (rs, heap'') \<Rightarrow> (r # rs, heap'')))"

text \<open>\<^verbatim>\<open>filter(Boolean)\<close> on an array of objects and \<^verbatim>\<open>undefined\<close>.\<close>

definition filterBoolean :: "'a option list \<Rightarrow> 'a list" where
  "filterBoolean xs = List.map_filter (\<lambda>x. x) xs"

text \<open>
  \<^verbatim>\<open>new Set(array)\<close> of objects: elements in insertion order, an object is added unless
  the same object (the same reference) is already in the set.
\<close>

definition setAdd :: "url_obj list \<Rightarrow> url_obj \<Rightarrow> url_obj list" where
  "setAdd s x = (if fst x \<in> fst ` set s then s else s @ [x])"

definition newSet :: "url_obj list \<Rightarrow> url_obj list" where
  "newSet xs = foldl setAdd [] xs"

text \<open>\<^verbatim>\<open>getGitHubUrls\<close>: \<open>gitHubUrls\<close> is the array of that name, before the set is built.\<close>

definition gitHubUrls ::
  "string option \<Rightarrow> (string \<Rightarrow> js_error + git_url) \<Rightarrow> config \<Rightarrow> string option \<Rightarrow> nat
     \<Rightarrow> js_error + url_obj list" where
  "gitHubUrls gitHubHostEnv parse cfg branchRemote heap =
     (case getRemoteUrls cfg branchRemote of
        Inl e \<Rightarrow> Inl e
      | Inr urls \<Rightarrow> Inr (filterBoolean (fst (mapGitHubUrls gitHubHostEnv parse urls heap))))"

definition getGitHubUrls ::
  "string option \<Rightarrow> (string \<Rightarrow> js_error + git_url) \<Rightarrow> config \<Rightarrow> string option \<Rightarrow> nat
     \<Rightarrow> js_error + url_obj list" where
  "getGitHubUrls gitHubHostEnv parse cfg branchRemote heap =
     (case gitHubUrls gitHubHostEnv parse cfg branchRemote heap of
        Inl e \<Rightarrow> Inl e
      | Inr urls \<Rightarrow> Inr (newSet urls))"

subsection \<open>lib/github-utils.js: the project name\<close>

text \<open>
  \<^verbatim>\<open>branch && config[...]\<close>: a falsy branch (\<^verbatim>\<open>undefined\<close> after a failed lookup, or the
  empty string) is the result itself; otherwise the configured remote, \<^verbatim>\<open>undefined\<close>
  when the key is missing.
\<close>

definition branchRemoteOf :: "string option \<Rightarrow> config \<Rightarrow> string option" where
  "branchRemoteOf branch cfg =
     (case branch of
        None \<Rightarrow> None
      | Some b \<Rightarrow> if b = '''' then Some '''' else map_of cfg (''branch.'' @ b @ ''.remote''))"

text \<open>\<^verbatim>\<open>repo.endsWith('.git') ? repo.slice(0, -4) : repo\<close>.\<close>

definition stripGit :: "string \<Rightarrow> string" where
  "stripGit repo = (if endsWith repo ''.git'' then take (length repo - 4) repo else repo)"

text \<open>
  The body of the loop of \<^verbatim>\<open>getProjectName\<close> for one URL: \<open>Some\<close> is the value
  returned, \<open>None\<close> means the URL is skipped and the loop goes on.
\<close>

definition projectOfUrl :: "git_url \<Rightarrow> (string \<times> string) option" where
  "projectOfUrl remoteUrl =
     (let pathParts = split CHR ''/'' (pathname remoteUrl)
      in if length pathParts \<noteq> 3 then None
         else if pathParts ! 0 \<noteq> '''' then None
         else if pathParts ! 1 = '''' then None
         else if pathParts ! 2 = '''' then None
         else
           let repo = stripGit (pathParts ! 2)
           in if repo = '''' then None else Some (pathParts ! 1, repo))"

fun firstProject :: "url_obj list \<Rightarrow> (string \<times> string) option" where
  "firstProject [] = None"
| "firstProject (remoteUrl # rest) =
     (case projectOfUrl (snd remoteUrl) of
        Some p \<Rightarrow> Some p
      | None \<Rightarrow> firstProject rest)"

text \<open>
  \<^verbatim>\<open>getProjectName\<close>. The branch is the result of \<^verbatim>\<open>tryGetBranch\<close> (\<open>None\<close> when the
  lookup failed) and the configuration the result of \<^verbatim>\<open>getConfig('local')\<close>.
\<close>

definition getProjectName ::
  "string option \<Rightarrow> (string \<Rightarrow> js_error + git_url) \<Rightarrow> string option \<Rightarrow> config \<Rightarrow> nat
     \<Rightarrow> js_error + (string \<times> string)" where
  "getProjectName gitHubHostEnv parse branch cfg heap =
     (let branchRemote = branchRemoteOf branch cfg
      in case getGitHubUrls gitHubHostEnv parse cfg branchRemote heap of
           Inl e \<Rightarrow> Inl e
         | Inr urls \<Rightarrow>
             (case firstProject urls of
                Some p \<Rightarrow> Inr p
              | None \<Rightarrow>
                  Inl (newError (''Unable to determine GitHub project name: ''
                                 @ ''No GitHub remote URLs recognized.''))))"

subsection \<open>Notions of the specification\<close>

text \<open>One step of the fold in \<open>getState\<close>.\<close>

definition sevStep :: "int \<Rightarrow> status \<Rightarrow> int" where
  "sevStep maxSeverity st = max (indexOf stateBySeverity (state st)) maxSeverity"

text \<open>The pair on which two remote entries may collide.\<close>

definition remoteKey :: "remote \<Rightarrow> string \<times> bool" where
  "remoteKey r = (name r, isPush r)"

text \<open>
  The order of the specification on remote entries: first the entry of the branch's
  remote; then the names of the preference list, in its order, before all other names;
  then the name, ascending; then push before fetch.
\<close>

definition listRank :: "string \<Rightarrow> nat" where
  "listRank n =
     (if n = ''upstream'' then 0 else if n = ''github'' then 1
      else if n = ''origin'' then 2 else 3)"

definition precedes :: "string option \<Rightarrow> remote \<Rightarrow> remote \<Rightarrow> bool" where
  "precedes branchRemoteName r1 r2 =
     (if (Some (name r1) = branchRemoteName) \<noteq> (Some (name r2) = branchRemoteName)
        then Some (name r1) = branchRemoteName
      else if listRank (name r1) \<noteq> listRank (name r2)
        then listRank (name r1) < listRank (name r2)
      else if name r1 \<noteq> name r2 then name r1 < name r2
      else isPush r1 \<and> \<not> isPush r2)"

text \<open>
  The shape of a path in the specification: exactly three segments, the first empty,
  the other two non-empty once a trailing \<^verbatim>\<open>.git\<close> is stripped from the last.
\<close>

definition validShape :: "string \<Rightarrow> bool" where
  "validShape path =
     (case split CHR ''/'' path of
        [s0, s1, s2] \<Rightarrow> s0 = '''' \<and> s1 \<noteq> '''' \<and> stripGit s2 \<noteq> ''''
      | _ \<Rightarrow> False)"

definition identityOf :: "string \<Rightarrow> string \<times> string" where
  "identityOf path = (split CHR ''/'' path ! 1, stripGit (split CHR ''/'' path ! 2))"

text \<open>What one remote URL contributes to the candidates, by value.\<close>

definition candidateOf ::
  "string option \<Rightarrow> (string \<Rightarrow> js_error + git_url) \<Rightarrow> string \<Rightarrow> git_url option" where
  "candidateOf gitHubHostEnv parse remoteUrl =
     (case parse remoteUrl of
        Inl e \<Rightarrow> None
      | Inr u \<Rightarrow> if isGitHubHost gitHubHostEnv (hostname u) then Some u else None)"

text \<open>The context column width of the specification.\<close>

definition columnWidth :: "status list \<Rightarrow> nat" where
  "columnWidth statuses =
     (if \<forall>st\<in>set statuses. \<not> hasTargetUrl st then 0
      else Max (set (map (\<lambda>st. length (context' st)) statuses)))"

text \<open>
  The order of the specification as the lexicographic order of a tuple: not the branch's
  remote, rank in the preference list, name, not a push URL.
\<close>

definition orderKey :: "string option \<Rightarrow> remote \<Rightarrow> bool \<times> nat \<times> string \<times> bool" where
  "orderKey br r = (Some (name r) \<noteq> br, listRank (name r), name r, \<not> isPush r)"

text \<open>The configuration key from which a remote entry is extracted.\<close>

definition configKey :: "remote \<Rightarrow> string" where
  "configKey r = ''remote.'' @ name r @ ''.'' @ (if isPush r then ''pushurl'' else ''url'')"

section \<open>Properties of the status aggregator\<close>

lemma indexFrom_range:
  "indexFrom i xs x = -1 \<or> (i \<le> indexFrom i xs x \<and> indexFrom i xs x < i + int (length xs))"
  by (induction xs arbitrary: i) (auto, force+)

lemma indexFrom_notin: "x \<notin> set xs \<Longrightarrow> indexFrom i xs x = -1"
  by (induction xs arbitrary: i) auto

lemma indexFrom_in:
  "x \<in> set xs \<Longrightarrow> \<exists>k<length xs. indexFrom i xs x = i + int k \<and> xs ! k = x"
proof (induction xs arbitrary: i)
  case Nil
  then show ?case by simp
next
  case (Cons y ys)
  show ?case
  proof (cases "y = x")
    case True
    then show ?thesis by auto
  next
    case False
    with Cons.prems have "x \<in> set ys" by simp
    from Cons.IH [OF this, of "i + 1"] obtain k where
      k: "k < length ys" "indexFrom (i + 1) ys x = i + 1 + int k" "ys ! k = x" by blast
    with False have "Suc k < length (y # ys) \<and> indexFrom i (y # ys) x = i + int (Suc k)
        \<and> (y # ys) ! Suc k = x" by simp
    then show ?thesis by blast
  qed
qed

lemma indexOf_notin: "x \<notin> set xs \<Longrightarrow> indexOf xs x = -1"
  by (simp add: indexOf_def indexFrom_notin)

lemma at_indexOf: "x \<in> set xs \<Longrightarrow> at xs (indexOf xs x) = Some x"
  using indexFrom_in [of x xs 0] by (auto simp: at_def indexOf_def)

lemma indexOf_ge: "- 1 \<le> indexOf xs x"
  using indexFrom_range [of 0 xs x] by (auto simp: indexOf_def)

lemma indexOf_lt: "indexOf xs x < int (length xs)"
  using indexFrom_range [of 0 xs x] by (auto simp: indexOf_def)

lemma getState_alt:
  "getState statuses =
     (case at stateBySeverity (foldl sevStep (-1) statuses) of
        None \<Rightarrow> '''' | Some s \<Rightarrow> s)"
proof -
  have "(\<lambda>maxSeverity st. let severity = indexOf stateBySeverity (state st)
           in max severity maxSeverity) = sevStep"
    by (simp add: sevStep_def fun_eq_iff)
  then show ?thesis
    by (simp add: getState_def split: option.splits)
qed

lemma foldl_sevStep_lower: "a \<le> foldl sevStep a xs"
proof (induction xs arbitrary: a)
  case Nil then show ?case by simp
next
  case (Cons x xs)
  have "a \<le> sevStep a x" by (simp add: sevStep_def)
  also have "\<dots> \<le> foldl sevStep (sevStep a x) xs" by (rule Cons.IH)
  finally show ?case by simp
qed

lemma foldl_sevStep_upper:
  "s \<in> set xs \<Longrightarrow> indexOf stateBySeverity (state s) \<le> foldl sevStep a xs"
proof (induction xs arbitrary: a)
  case Nil then show ?case by simp
next
  case (Cons x xs)
  show ?case
  proof (cases "s = x")
    case True
    have "indexOf stateBySeverity (state x) \<le> sevStep a x" by (simp add: sevStep_def)
    also have "\<dots> \<le> foldl sevStep (sevStep a x) xs" by (rule foldl_sevStep_lower)
    finally show ?thesis using True by simp
  next
    case False
    with Cons show ?thesis by simp
  qed
qed

lemma foldl_sevStep_attained:
  "foldl sevStep a xs = a \<or> (\<exists>s\<in>set xs. foldl sevStep a xs = indexOf stateBySeverity (state s))"
proof (induction xs arbitrary: a)
  case Nil then show ?case by simp
next
  case (Cons x xs)
  from Cons.IH [of "sevStep a x"] show ?case
    by (auto simp: sevStep_def max_def split: if_splits)
qed

lemma foldl_sevStep_filter:
  "- 1 \<le> a \<Longrightarrow> foldl sevStep a (filter (\<lambda>s. state s \<in> set stateBySeverity) xs) = foldl sevStep a xs"
proof (induction xs arbitrary: a)
  case Nil then show ?case by simp
next
  case (Cons x xs)
  show ?case
  proof (cases "state x \<in> set stateBySeverity")
    case True
    have "- 1 \<le> sevStep a x" using Cons.prems by (simp add: sevStep_def)
    with True Cons.IH show ?thesis by simp
  next
    case False
    then have "sevStep a x = a"
      using Cons.prems by (simp add: sevStep_def indexOf_notin)
    with False Cons show ?thesis by simp
  qed
qed

lemma scale_indices: "map (indexOf stateBySeverity) stateBySeverity = [0, 1, 2, 3, 4, 5, 6, 7]"
  by (simp add: stateBySeverity_def indexOf_def)

lemma at_minus_one: "at xs (- 1) = None"
  by (simp add: at_def)

lemma foldl_sevStep_nonempty:
  assumes "xs \<noteq> []" and "\<forall>s\<in>set xs. a \<le> indexOf stateBySeverity (state s)"
  shows "\<exists>s\<in>set xs. foldl sevStep a xs = indexOf stateBySeverity (state s)"
proof -
  from assms(1) obtain x where x: "x \<in> set xs" by (cases xs) auto
  from foldl_sevStep_attained [of a xs] show ?thesis
  proof
    assume eq: "foldl sevStep a xs = a"
    have "indexOf stateBySeverity (state x) \<le> a"
      using foldl_sevStep_upper [OF x, of a] eq by simp
    moreover have "a \<le> indexOf stateBySeverity (state x)" using assms(2) x by blast
    ultimately show ?thesis using eq x by auto
  qed blast
qed

text \<open>
  Claim C2. The scale gives the states the severities 0 to 7 in the order neutral,
  success, pending, cancelled, timed_out, action_required, failure, error. For a list of
  status records whose states are all on the scale, \<open>getState\<close> of the empty list is
  the empty string, and of a non-empty list it is a state occurring in the list whose
  severity is at least that of every record; for the states success, pending, failure
  it is failure.
\<close>

theorem getState_highest_severity:
  assumes "\<forall>s\<in>set statuses. state s \<in> set stateBySeverity"
  shows "map (indexOf stateBySeverity) stateBySeverity = [0, 1, 2, 3, 4, 5, 6, 7]
     \<and> getState [] = ''''
     \<and> (statuses \<noteq> [] \<longrightarrow>
          getState statuses \<in> state ` set statuses
          \<and> (\<forall>s\<in>set statuses.
                indexOf stateBySeverity (state s)
                  \<le> indexOf stateBySeverity (getState statuses)))
     \<and> (state a = ''success'' \<and> state b = ''pending'' \<and> state c = ''failure''
          \<longrightarrow> getState [a, b, c] = ''failure'')"
proof (intro conjI impI)
  assume "state a = ''success'' \<and> state b = ''pending'' \<and> state c = ''failure''"
  then show "getState [a, b, c] = ''failure''"
    by (simp add: getState_alt sevStep_def) (simp add: indexOf_def stateBySeverity_def at_def)
next
  show "map (indexOf stateBySeverity) stateBySeverity = [0, 1, 2, 3, 4, 5, 6, 7]"
    by (rule scale_indices)
  show "getState [] = ''''"
    by (simp add: getState_alt at_minus_one)
next
  assume ne: "statuses \<noteq> []"
  have low: "\<forall>s\<in>set statuses. - 1 \<le> indexOf stateBySeverity (state s)"
    by (simp add: indexOf_ge)
  from foldl_sevStep_nonempty [OF ne low] obtain t where
    t: "t \<in> set statuses"
       "foldl sevStep (- 1) statuses = indexOf stateBySeverity (state t)" by auto
  from assms t(1) have "state t \<in> set stateBySeverity" by blast
  then have res: "getState statuses = state t"
    by (simp add: getState_alt t(2) at_indexOf)
  show "getState statuses \<in> state ` set statuses"
    using res t(1) by simp
  show "\<forall>s\<in>set statuses.
          indexOf stateBySeverity (state s) \<le> indexOf stateBySeverity (getState statuses)"
    using foldl_sevStep_upper [of _ statuses "- 1"] by (simp add: res flip: t(2))
qed

text \<open>Witness: the records with states success, pending and failure.\<close>

theorem getState_highest_severity_witness:
  "state ` set [\<lparr>state = ''success'', context' = ''a'', target_url = None\<rparr>,
                \<lparr>state = ''pending'', context' = ''b'', target_url = None\<rparr>,
                \<lparr>state = ''failure'', context' = ''c'', target_url = None\<rparr>]
       \<subseteq> set stateBySeverity
   \<and> getState [\<lparr>state = ''success'', context' = ''a'', target_url = None\<rparr>,
                \<lparr>state = ''pending'', context' = ''b'', target_url = None\<rparr>,
                \<lparr>state = ''failure'', context' = ''c'', target_url = None\<rparr>] = ''failure''"
  using getState_highest_severity
    [of "[\<lparr>state = ''success'', context' = ''a'', target_url = None\<rparr>,
          \<lparr>state = ''pending'', context' = ''b'', target_url = None\<rparr>,
          \<lparr>state = ''failure'', context' = ''c'', target_url = None\<rparr>]"
        "\<lparr>state = ''success'', context' = ''a'', target_url = None\<rparr>"
        "\<lparr>state = ''pending'', context' = ''b'', target_url = None\<rparr>"
        "\<lparr>state = ''failure'', context' = ''c'', target_url = None\<rparr>"]
  by (auto simp: stateBySeverity_def)

text \<open>
  Claim C4. \<open>stateToExitCode\<close> maps neutral and success to 0; cancelled, timed_out,
  action_required, failure and error to 1; pending to 2; the empty string and every
  string that is not on the scale to 3.
\<close>

theorem stateToExitCode_table:
  "stateToExitCode ''neutral'' = 0 \<and> stateToExitCode ''success'' = 0
   \<and> stateToExitCode ''cancelled'' = 1 \<and> stateToExitCode ''timed_out'' = 1
   \<and> stateToExitCode ''action_required'' = 1 \<and> stateToExitCode ''failure'' = 1
   \<and> stateToExitCode ''error'' = 1
   \<and> stateToExitCode ''pending'' = 2
   \<and> stateToExitCode '''' = 3
   \<and> (st \<notin> set stateBySeverity \<longrightarrow> stateToExitCode st = 3)"
  by (simp add: stateToExitCode_def stateBySeverity_def)

text \<open>Witness: an unrecognized state.\<close>

theorem stateToExitCode_table_witness:
  "''bogus'' \<notin> set stateBySeverity \<and> stateToExitCode ''bogus'' = 3"
  using stateToExitCode_table [of "''bogus''"]
  by (simp add: stateBySeverity_def)

text \<open>
  Claim C10. \<open>getState\<close> of a list equals \<open>getState\<close> of its sublist of records
  whose state is on the severity scale; a list with only unrecognized states yields the
  empty string; an unrecognized state followed by success yields success.
\<close>

theorem getState_ignores_unrecognized:
  "getState statuses = getState (filter (\<lambda>s. state s \<in> set stateBySeverity) statuses)
   \<and> ((\<forall>s\<in>set statuses. state s \<notin> set stateBySeverity) \<longrightarrow> getState statuses = '''')
   \<and> (state s1 \<notin> set stateBySeverity \<and> state s2 = ''success''
        \<longrightarrow> getState [s1, s2] = ''success'')"
proof (intro conjI impI)
  show eq: "getState statuses = getState (filter (\<lambda>s. state s \<in> set stateBySeverity) statuses)"
    by (simp add: getState_alt foldl_sevStep_filter)
  {
    assume "\<forall>s\<in>set statuses. state s \<notin> set stateBySeverity"
    then have "filter (\<lambda>s. state s \<in> set stateBySeverity) statuses = []"
      by (simp add: filter_empty_conv)
    with eq show "getState statuses = ''''"
      by (simp add: getState_alt at_minus_one)
  }
  {
    assume "state s1 \<notin> set stateBySeverity \<and> state s2 = ''success''"
    then show "getState [s1, s2] = ''success''"
      by (simp add: getState_alt sevStep_def indexOf_notin)
         (simp add: indexOf_def stateBySeverity_def at_def)
  }
qed

text \<open>Witness: the states bogus and success.\<close>

theorem getState_ignores_unrecognized_witness:
  "''bogus'' \<notin> set stateBySeverity
   \<and> getState [\<lparr>state = ''bogus'', context' = ''a'', target_url = None\<rparr>] = ''''
   \<and> getState [\<lparr>state = ''bogus'', context' = ''a'', target_url = None\<rparr>,
               \<lparr>state = ''success'', context' = ''b'', target_url = None\<rparr>] = ''success''"
  using getState_ignores_unrecognized
      [of "[\<lparr>state = ''bogus'', context' = ''a'', target_url = None\<rparr>]"
          "\<lparr>state = ''bogus'', context' = ''a'', target_url = None\<rparr>"
          "\<lparr>state = ''success'', context' = ''b'', target_url = None\<rparr>"]
  by (auto simp: stateBySeverity_def)

section \<open>Properties of the formatter\<close>

lemma foldl_max_Max:
  "foldl (\<lambda>mx st. max mx (f st)) (a::nat) xs = Max (insert a (f ` set xs))"
proof (induction xs arbitrary: a)
  case Nil
  then show ?case by simp
next
  case (Cons x xs)
  have "foldl (\<lambda>mx st. max mx (f st)) a (x # xs) = Max (insert (max a (f x)) (f ` set xs))"
    by (simp add: Cons.IH)
  also have "\<dots> = Max (insert a (insert (f x) (f ` set xs)))"
    by (cases "xs = []") (simp_all add: max.assoc)
  finally show ?case by (simp add: insert_commute)
qed

lemma contextWidth_columnWidth:
  "(if \<not> list_ex hasTargetUrl statuses then 0
    else foldl (\<lambda>mx st. max mx (length (context' st))) 0 statuses) = columnWidth statuses"
proof (cases "list_ex hasTargetUrl statuses")
  case False
  then show ?thesis by (simp add: columnWidth_def list_ex_iff)
next
  case True
  then have ne: "statuses \<noteq> []" by auto
  have "Max (insert 0 ((\<lambda>st. length (context' st)) ` set statuses))
          = Max ((\<lambda>st. length (context' st)) ` set statuses)"
    using ne by (simp add: max_def)
  with True show ?thesis
    by (auto simp: columnWidth_def list_ex_iff foldl_max_Max)
qed

lemma formatStatus_line:
  "formatStatus st w useColor =
     getStateMarker (state st) useColor @ [CHR 0x09] @ padEnd (context' st) w
       @ (if hasTargetUrl st then CHR 0x09 # the (target_url st) else '''')"
  by (simp add: formatStatus_def hasTargetUrl_def split: option.splits)

lemma columnWidth_bounds:
  assumes "st \<in> set statuses" "hasTargetUrl st"
  shows "(\<forall>t\<in>set statuses. length (context' t) \<le> columnWidth statuses)
         \<and> (\<exists>t\<in>set statuses. length (context' t) = columnWidth statuses)"
proof -
  let ?S = "(\<lambda>st. length (context' st)) ` set statuses"
  have cw: "columnWidth statuses = Max ?S"
    using assms by (auto simp: columnWidth_def)
  have fin: "finite ?S" and ne: "?S \<noteq> {}" using assms by auto
  from Max_in [OF fin ne] have "Max ?S \<in> ?S" .
  moreover have "\<forall>t\<in>set statuses. length (context' t) \<le> Max ?S"
    using fin by (auto intro: Max_ge)
  ultimately show ?thesis unfolding cw by auto
qed

text \<open>
  Claim C8. \<open>formatStatuses\<close> joins with newlines one line per record: the state
  marker, a tab, the context padded to the column width and, only when the record has a
  target URL, a tab and the URL. The column width is 0 when no record has a target URL,
  and otherwise the greatest length of a context among all records. Padding to a width
  keeps the string and appends spaces up to that width.
\<close>

theorem formatStatuses_layout:
  "formatStatuses statuses useColor =
     join [CHR 0x0A]
       (map (\<lambda>st. getStateMarker (state st) useColor @ [CHR 0x09]
                   @ padEnd (context' st) (columnWidth statuses)
                   @ (if hasTargetUrl st then CHR 0x09 # the (target_url st) else ''''))
            statuses)
   \<and> ((\<forall>st\<in>set statuses. \<not> hasTargetUrl st) \<longrightarrow> columnWidth statuses = 0)
   \<and> ((\<exists>st\<in>set statuses. hasTargetUrl st) \<longrightarrow>
        (\<forall>t\<in>set statuses. length (context' t) \<le> columnWidth statuses)
        \<and> (\<exists>t\<in>set statuses. length (context' t) = columnWidth statuses))
   \<and> length (padEnd s w) = max (length s) w
   \<and> take (length s) (padEnd s w) = s
   \<and> set (drop (length s) (padEnd s w)) \<subseteq> {CHR '' ''}"
proof (intro conjI impI)
  show "formatStatuses statuses useColor =
     join [CHR 0x0A]
       (map (\<lambda>st. getStateMarker (state st) useColor @ [CHR 0x09]
                   @ padEnd (context' st) (columnWidth statuses)
                   @ (if hasTargetUrl st then CHR 0x09 # the (target_url st) else ''''))
            statuses)"
    unfolding formatStatuses_def contextWidth_columnWidth Let_def formatStatus_line ..
  show "length (padEnd s w) = max (length s) w"
    by (simp add: padEnd_def)
  show "take (length s) (padEnd s w) = s"
    by (simp add: padEnd_def)
  show "set (drop (length s) (padEnd s w)) \<subseteq> {CHR '' ''}"
    by (auto simp: padEnd_def)
next
  assume "\<forall>st\<in>set statuses. \<not> hasTargetUrl st"
  then show "columnWidth statuses = 0" by (simp add: columnWidth_def)
next
  assume "\<exists>st\<in>set statuses. hasTargetUrl st"
  then obtain st where "st \<in> set statuses" "hasTargetUrl st" by blast
  then have both: "(\<forall>t\<in>set statuses. length (context' t) \<le> columnWidth statuses)
        \<and> (\<exists>t\<in>set statuses. length (context' t) = columnWidth statuses)"
    by (rule columnWidth_bounds)
  from both show "\<forall>t\<in>set statuses. length (context' t) \<le> columnWidth statuses" ..
  from both show "\<exists>t\<in>set statuses. length (context' t) = columnWidth statuses" ..
qed

text \<open>Witness: two records, one of them with a target URL, and one record without.\<close>

theorem formatStatuses_layout_witness:
  "formatStatuses [\<lparr>state = ''success'', context' = ''ci'', target_url = Some ''http://x''\<rparr>,
                   \<lparr>state = ''pending'', context' = ''build'', target_url = None\<rparr>] False
     = getStateMarker ''success'' False @ [CHR 0x09] @ ''ci   '' @ [CHR 0x09] @ ''http://x''
       @ [CHR 0x0A] @ getStateMarker ''pending'' False @ [CHR 0x09] @ ''build''
   \<and> columnWidth [\<lparr>state = ''success'', context' = ''ci'', target_url = Some ''http://x''\<rparr>,
                   \<lparr>state = ''pending'', context' = ''build'', target_url = None\<rparr>] = 5
   \<and> columnWidth [\<lparr>state = ''success'', context' = ''ci'', target_url = None\<rparr>] = 0"
  using formatStatuses_layout
          [of "[\<lparr>state = ''success'', context' = ''ci'', target_url = Some ''http://x''\<rparr>,
                \<lparr>state = ''pending'', context' = ''build'', target_url = None\<rparr>]" False "''ci''" 5]
        formatStatuses_layout
          [of "[\<lparr>state = ''success'', context' = ''ci'', target_url = None\<rparr>]" False "''ci''" 5]
  by (simp add: hasTargetUrl_def getStateMarker_def padEnd_def columnWidth_def)

section \<open>Properties of the order of remotes\<close>

lemma indexOf_originNames:
  "indexOf originNamesInLookupOrder n = (if listRank n = 3 then - 1 else int (listRank n))"
  by (simp add: indexOf_def originNamesInLookupOrder_def listRank_def)

lemma listRank_le: "listRank n \<le> 3"
  by (simp add: listRank_def)

lemma orderKey_eq: "orderKey br a = orderKey br b \<longleftrightarrow> remoteKey a = remoteKey b"
  by (auto simp: orderKey_def remoteKey_def)

lemma precedes_orderKey: "precedes br a b \<longleftrightarrow> orderKey br a < orderKey br b"
proof (cases "(Some (name a) = br) \<noteq> (Some (name b) = br)")
  case True
  then show ?thesis
    by (auto simp: precedes_def orderKey_def less_prod_def)
next
  case b: False
  show ?thesis
  proof (cases "listRank (name a) \<noteq> listRank (name b)")
    case True
    with b show ?thesis
      by (auto simp: precedes_def orderKey_def less_prod_def)
  next
    case r: False
    show ?thesis
    proof (cases "name a \<noteq> name b")
      case True
      with b r show ?thesis
        by (auto simp: precedes_def orderKey_def less_prod_def)
    next
      case False
      with b r show ?thesis
        by (auto simp: precedes_def orderKey_def less_prod_def)
    qed
  qed
qed

lemma precedes_irrefl: "\<not> precedes br a a"
  by (simp add: precedes_orderKey)

lemma precedes_asym: "precedes br a b \<Longrightarrow> \<not> precedes br b a"
  by (simp add: precedes_orderKey)

lemma precedes_trans: "precedes br a b \<Longrightarrow> precedes br b c \<Longrightarrow> precedes br a c"
  unfolding precedes_orderKey by (rule less_trans)

lemma precedes_total: "remoteKey a \<noteq> remoteKey b \<Longrightarrow> precedes br a b \<or> precedes br b a"
  unfolding precedes_orderKey using orderKey_eq [of br a b] by auto

lemma precedes_key_right: "remoteKey b = remoteKey b' \<Longrightarrow> precedes br a b = precedes br a b'"
  unfolding precedes_orderKey using orderKey_eq [of br b b'] by simp

lemma compareRemotes_Inl:
  "remoteKey a = remoteKey b \<Longrightarrow> compareRemotes br a b = Inl (duplicateConfigError a)"
  by (simp add: compareRemotes_def remoteKey_def)

lemma compareRemotes_Inr:
  assumes ne: "remoteKey a \<noteq> remoteKey b"
  shows "\<exists>c. compareRemotes br a b = Inr c \<and> c \<noteq> 0 \<and> (c < 0 \<longleftrightarrow> precedes br a b)"
proof (cases "(Some (name a) = br) \<noteq> (Some (name b) = br)")
  case True
  then show ?thesis
    by (auto simp: compareRemotes_def precedes_def Let_def)
next
  case b: False
  have le: "listRank (name a) \<le> 3" "listRank (name b) \<le> 3" by (rule listRank_le)+
  show ?thesis
  proof (cases "listRank (name a) \<noteq> listRank (name b)")
    case True
    with b le show ?thesis
      by (auto simp: compareRemotes_def precedes_def Let_def indexOf_originNames)
  next
    case r: False
    show ?thesis
    proof (cases "name a \<noteq> name b")
      case True
      with b r show ?thesis
        by (auto simp: compareRemotes_def precedes_def Let_def indexOf_originNames)
    next
      case False
      with ne have "isPush a \<noteq> isPush b" by (simp add: remoteKey_def)
      with False b r show ?thesis
        by (auto simp: compareRemotes_def precedes_def Let_def indexOf_originNames)
    qed
  qed
qed

lemma insertSorted_ok:
  assumes "sorted_wrt (precedes br) ys" "\<forall>y\<in>set ys. remoteKey y \<noteq> remoteKey x"
  shows "\<exists>zs. insertSorted (compareRemotes br) x ys = Inr zs
            \<and> mset zs = add_mset x (mset ys) \<and> sorted_wrt (precedes br) zs"
  using assms
proof (induction ys)
  case Nil
  then show ?case by simp
next
  case (Cons y ys)
  from Cons.prems have ne: "remoteKey x \<noteq> remoteKey y" by auto
  from compareRemotes_Inr [OF ne, of br] obtain c where
    c: "compareRemotes br x y = Inr c" "c \<noteq> 0" "c < 0 \<longleftrightarrow> precedes br x y" by blast
  show ?case
  proof (cases "c < 0")
    case True
    with c have xy: "precedes br x y" by simp
    have "\<forall>z\<in>set ys. precedes br x z"
      using Cons.prems(1) xy by (auto intro: precedes_trans)
    with True c xy Cons.prems(1) show ?thesis by simp
  next
    case False
    with c have "\<not> precedes br x y" by simp
    with precedes_total [OF ne, of br] have yx: "precedes br y x" by simp
    from Cons.prems have "sorted_wrt (precedes br) ys"
      "\<forall>z\<in>set ys. remoteKey z \<noteq> remoteKey x" by simp_all
    from Cons.IH [OF this] obtain zs where
      zs: "insertSorted (compareRemotes br) x ys = Inr zs"
          "mset zs = add_mset x (mset ys)" "sorted_wrt (precedes br) zs" by blast
    have "set zs = insert x (set ys)"
      using zs(2) by (metis set_mset_add_mset_insert set_mset_mset)
    with yx Cons.prems(1) have "\<forall>z\<in>set zs. precedes br y z" by simp
    with False c zs show ?thesis by simp
  qed
qed

lemma insertSorted_dup:
  assumes "sorted_wrt (precedes br) ys" "\<exists>y\<in>set ys. remoteKey y = remoteKey x"
  shows "insertSorted (compareRemotes br) x ys = Inl (duplicateConfigError x)"
  using assms
proof (induction ys)
  case Nil
  then show ?case by simp
next
  case (Cons y ys)
  show ?case
  proof (cases "remoteKey x = remoteKey y")
    case True
    then show ?thesis by (simp add: compareRemotes_Inl)
  next
    case ne: False
    with Cons.prems(2) obtain d where d: "d \<in> set ys" "remoteKey d = remoteKey x" by auto
    from Cons.prems(1) d(1) have "precedes br y d" by simp
    with d(2) have "precedes br y x" by (simp add: precedes_key_right [of d x])
    then have nxy: "\<not> precedes br x y" by (auto dest: precedes_asym)
    from compareRemotes_Inr [OF ne, of br] obtain c where
      c: "compareRemotes br x y = Inr c" "c < 0 \<longleftrightarrow> precedes br x y" by blast
    from Cons.prems(1) d have "insertSorted (compareRemotes br) x ys = Inl (duplicateConfigError x)"
      by (intro Cons.IH) auto
    with c nxy show ?thesis by simp
  qed
qed

lemma sorted_precedes_distinct:
  "sorted_wrt (precedes br) xs \<Longrightarrow> distinct (map remoteKey xs)"
proof (induction xs)
  case Nil
  then show ?case by simp
next
  case (Cons x xs)
  have "remoteKey x \<notin> remoteKey ` set xs"
  proof
    assume "remoteKey x \<in> remoteKey ` set xs"
    then obtain d where d: "d \<in> set xs" "remoteKey d = remoteKey x" by auto
    with Cons.prems have "precedes br x d" by simp
    with d(2) have "precedes br x x" by (simp add: precedes_key_right [of d x])
    then show False by (simp add: precedes_irrefl)
  qed
  with Cons show ?case by simp
qed

lemma sortFrom_ok:
  assumes "sorted_wrt (precedes br) acc" "distinct (map remoteKey (acc @ xs))"
  shows "\<exists>zs. sortFrom (compareRemotes br) acc xs = Inr zs
            \<and> mset zs = mset acc + mset xs \<and> sorted_wrt (precedes br) zs"
  using assms
proof (induction xs arbitrary: acc)
  case Nil
  then show ?case by simp
next
  case (Cons x xs)
  from Cons.prems(2) have "remoteKey x \<notin> remoteKey ` set acc" by auto
  then have "\<forall>y\<in>set acc. remoteKey y \<noteq> remoteKey x" by (metis imageI)
  from insertSorted_ok [OF Cons.prems(1) this] obtain acc' where
    acc': "insertSorted (compareRemotes br) x acc = Inr acc'"
          "mset acc' = add_mset x (mset acc)" "sorted_wrt (precedes br) acc'" by blast
  have "mset (map remoteKey (acc' @ xs)) = mset (map remoteKey (acc @ x # xs))"
    using acc'(2) by simp
  then have "distinct (map remoteKey (acc' @ xs))"
    using Cons.prems(2) by (metis mset_eq_imp_distinct_iff)
  from Cons.IH [OF acc'(3) this] acc'(1,2) show ?case by auto
qed

lemma sortFrom_dup:
  assumes "sorted_wrt (precedes br) acc" "\<not> distinct (map remoteKey (acc @ xs))"
  shows "\<exists>r\<in>set xs. sortFrom (compareRemotes br) acc xs = Inl (duplicateConfigError r)"
  using assms
proof (induction xs arbitrary: acc)
  case Nil
  then show ?case by (simp add: sorted_precedes_distinct)
next
  case (Cons x xs)
  show ?case
  proof (cases "\<exists>y\<in>set acc. remoteKey y = remoteKey x")
    case True
    from insertSorted_dup [OF Cons.prems(1) True] show ?thesis by simp
  next
    case False
    then have "\<forall>y\<in>set acc. remoteKey y \<noteq> remoteKey x" by simp
    from insertSorted_ok [OF Cons.prems(1) this] obtain acc' where
      acc': "insertSorted (compareRemotes br) x acc = Inr acc'"
            "mset acc' = add_mset x (mset acc)" "sorted_wrt (precedes br) acc'" by blast
    have "mset (map remoteKey (acc' @ xs)) = mset (map remoteKey (acc @ x # xs))"
      using acc'(2) by simp
    then have "\<not> distinct (map remoteKey (acc' @ xs))"
      using Cons.prems(2) by (metis mset_eq_imp_distinct_iff)
    from Cons.IH [OF acc'(3) this] acc'(1) show ?thesis by auto
  qed
qed

lemma endsWith_iff: "endsWith s suffix \<longleftrightarrow> (\<exists>pre. s = pre @ suffix)"
proof
  assume "endsWith s suffix"
  then have "s = take (length s - length suffix) s @ suffix"
    by (metis append_take_drop_id endsWith_def)
  then show "\<exists>pre. s = pre @ suffix" ..
next
  assume "\<exists>pre. s = pre @ suffix"
  then show "endsWith s suffix" by (auto simp: endsWith_def)
qed

lemma endsWith_decompose:
  assumes "endsWith s suffix" "pre = take (length s - length suffix) s"
  shows "s = pre @ suffix"
proof -
  from assms(1) have "drop (length s - length suffix) s = suffix"
    by (simp add: endsWith_def)
  with assms(2) have "pre @ suffix = take (length s - length suffix) s
      @ drop (length s - length suffix) s" by simp
  then show ?thesis by (simp only: append_take_drop_id)
qed

lemma matchRemoteKey_Some:
  assumes "matchRemoteKey key = Some (n, kind)"
  shows "key = ''remote.'' @ n @ ''.'' @ kind \<and> (kind = ''url'' \<or> kind = ''pushurl'')"
proof -
  define rest where "rest = drop 7 key"
  have pre: "take 7 key = ''remote.''"
  proof (rule ccontr)
    assume "take 7 key \<noteq> ''remote.''"
    then have "matchRemoteKey key = None" by (simp only: matchRemoteKey_def if_False)
    with assms show False by simp
  qed
  have "take 7 key @ drop 7 key = key" by (rule append_take_drop_id)
  then have key: "key = ''remote.'' @ rest" by (simp only: pre rest_def)
  have m: "matchRemoteKey key =
     (if endsWith rest ''.url'' \<and> \<not> list_ex lineTerminator (take (length rest - 4) rest)
        then Some (take (length rest - 4) rest, ''url'')
      else if endsWith rest ''.pushurl'' \<and> \<not> list_ex lineTerminator (take (length rest - 8) rest)
        then Some (take (length rest - 8) rest, ''pushurl'')
      else None)"
    unfolding matchRemoteKey_def rest_def Let_def by (simp only: pre simp_thms if_True)
  show ?thesis
  proof (cases "endsWith rest ''.url''
      \<and> \<not> list_ex lineTerminator (take (length rest - 4) rest)")
    case True
    then have "matchRemoteKey key = Some (take (length rest - 4) rest, ''url'')"
      by (simp add: m)
    with assms have nk: "take (length rest - 4) rest = n" "kind = ''url''"
      by (simp_all only: option.inject prod.inject)
    from True have "endsWith rest ''.url''" ..
    then have "rest = n @ ''.url''"
      by (rule endsWith_decompose) (use nk(1) in \<open>simp add: eval_nat_numeral\<close>)
    then show ?thesis unfolding key nk(2) by simp
  next
    case nf: False
    show ?thesis
    proof (cases "endsWith rest ''.pushurl''
        \<and> \<not> list_ex lineTerminator (take (length rest - 8) rest)")
      case True
      with nf have "matchRemoteKey key = Some (take (length rest - 8) rest, ''pushurl'')"
        by (simp add: m)
      with assms have nk: "take (length rest - 8) rest = n" "kind = ''pushurl''"
        by (simp_all only: option.inject prod.inject)
      from True have "endsWith rest ''.pushurl''" ..
      then have "rest = n @ ''.pushurl''"
        by (rule endsWith_decompose) (use nk(1) in \<open>simp add: eval_nat_numeral\<close>)
      then show ?thesis unfolding key nk(2) by simp
    next
      case False
      with nf have "matchRemoteKey key = None"
        by (simp add: m)
      with assms show ?thesis by simp
    qed
  qed
qed

lemma configKey_remoteEntries:
  "map configKey (remoteEntries cfg) = filter (\<lambda>k. matchRemoteKey k \<noteq> None) (map fst cfg)"
proof (induction cfg)
  case Nil
  then show ?case by (simp add: remoteEntries_def map_filter_simps)
next
  case (Cons kv cfg)
  obtain k v where kv: "kv = (k, v)" by (cases kv)
  show ?case
  proof (cases "matchRemoteKey k")
    case None
    with Cons kv show ?thesis by (simp add: remoteEntries_def map_filter_simps)
  next
    case (Some m)
    obtain n kind where m: "m = (n, kind)" by (cases m)
    from matchRemoteKey_Some [of k n kind] Some m
    have "k = ''remote.'' @ n @ ''.'' @ kind" "kind = ''url'' \<or> kind = ''pushurl''" by simp_all
    then have "configKey \<lparr>name = n, isPush = (kind = ''pushurl''), url = v\<rparr> = k"
      by (auto simp: configKey_def)
    with Cons kv Some m show ?thesis by (simp add: remoteEntries_def map_filter_simps)
  qed
qed

lemma configKey_remoteKey: "configKey r = (\<lambda>(n, p). ''remote.'' @ n @ ''.'' @ (if p then ''pushurl'' else ''url'')) (remoteKey r)"
  by (simp add: configKey_def remoteKey_def)

lemma remoteEntries_distinct:
  assumes "distinct (map fst cfg)"
  shows "distinct (map remoteKey (remoteEntries cfg))"
proof -
  let ?g = "\<lambda>(n, p). ''remote.'' @ n @ ''.'' @ (if p then ''pushurl'' else ''url'')"
  have "distinct (map configKey (remoteEntries cfg))"
    using assms by (simp add: configKey_remoteEntries)
  moreover have "map configKey (remoteEntries cfg) = map ?g (map remoteKey (remoteEntries cfg))"
    by (simp add: configKey_remoteKey)
  ultimately have "distinct (map ?g (map remoteKey (remoteEntries cfg)))" by simp
  then have "distinct (map remoteKey (remoteEntries cfg))
      \<and> inj_on ?g (set (map remoteKey (remoteEntries cfg)))"
    by (simp only: distinct_map)
  then show ?thesis ..
qed

lemma precedes_eq_orderKey: "precedes br = (\<lambda>x y. orderKey br x < orderKey br y)"
  by (simp add: fun_eq_iff precedes_orderKey)

lemma sorted_precedes_unique:
  assumes "sorted_wrt (precedes br) xs" "sorted_wrt (precedes br) ys" "mset xs = mset ys"
  shows "xs = ys"
proof -
  have sx: "sorted_wrt (<) (map (orderKey br) xs)"
    using assms(1) by (simp add: sorted_wrt_map precedes_eq_orderKey)
  have sy: "sorted_wrt (<) (map (orderKey br) ys)"
    using assms(2) by (simp add: sorted_wrt_map precedes_eq_orderKey)
  have st: "set xs = set ys"
    using assms(3) by (rule mset_eq_setD)
  then have "set (map (orderKey br) ys) = set (map (orderKey br) xs)" by simp
  with sx sy have m: "map (orderKey br) ys = map (orderKey br) xs"
    by (rule strict_sorted_equal)
  from sx have "distinct (map (orderKey br) xs)"
    by (simp add: strict_sorted_iff)
  then have "inj_on (orderKey br) (set xs \<union> set ys)"
    using st by (simp add: distinct_map)
  with m [symmetric] show ?thesis by (simp only: inj_on_map_eq_map)
qed

text \<open>
  Claim C1. For a configuration (an object: each key once) and a branch remote name,
  the sort succeeds, \<open>getRemoteUrls\<close> returns the URLs of the sorted entries, the
  sorted entries are the entries extracted from the keys \<^verbatim>\<open>remote.<name>.url\<close> and
  \<^verbatim>\<open>remote.<name>.pushurl\<close>, and they are in the order of the specification: the
  branch's remote first; then upstream, github, origin, in this order, before all other
  names; then ascending by name; for one name the push URL before the fetch URL. No
  other arrangement of the entries is in that order, so the result does not depend on
  the sorting algorithm of the engine.
\<close>

theorem getRemoteUrls_ordered:
  assumes "distinct (map fst cfg)"
  shows "\<exists>remotes. sortedRemotes cfg branchRemoteName = Inr remotes
           \<and> getRemoteUrls cfg branchRemoteName = Inr (map url remotes)
           \<and> mset remotes = mset (remoteEntries cfg)
           \<and> sorted_wrt (precedes branchRemoteName) remotes
           \<and> (\<forall>rs. mset rs = mset (remoteEntries cfg)
                    \<and> sorted_wrt (precedes branchRemoteName) rs \<longrightarrow> rs = remotes)"
proof -
  from remoteEntries_distinct [OF assms]
  have "distinct (map remoteKey ([] @ remoteEntries cfg))" by simp
  from sortFrom_ok [OF _ this, of branchRemoteName] obtain zs where
    zs: "sortFrom (compareRemotes branchRemoteName) [] (remoteEntries cfg) = Inr zs"
    "mset zs = mset (remoteEntries cfg)" "sorted_wrt (precedes branchRemoteName) zs"
    by auto
  have u: "\<forall>rs. mset rs = mset (remoteEntries cfg)
          \<and> sorted_wrt (precedes branchRemoteName) rs \<longrightarrow> rs = zs"
  proof (intro allI impI)
    fix rs
    assume "mset rs = mset (remoteEntries cfg) \<and> sorted_wrt (precedes branchRemoteName) rs"
    then have "sorted_wrt (precedes branchRemoteName) rs" "mset rs = mset zs"
      using zs(2) by simp_all
    with zs(3) show "rs = zs" by (intro sorted_precedes_unique)
  qed
  have "sortedRemotes cfg branchRemoteName = Inr zs"
    "getRemoteUrls cfg branchRemoteName = Inr (map url zs)"
    using zs(1) by (simp_all add: sortedRemotes_def getRemoteUrls_def arraySort_def)
  with zs(2,3) u show ?thesis by blast
qed

text \<open>Witness: a configuration with eight keys, the branch's remote being zeta.\<close>

theorem getRemoteUrls_ordered_witness:
  "distinct (map fst [(''remote.origin.url'', ''o''), (''remote.zeta.url'', ''z''),
       (''core.bare'', ''false''), (''remote.upstream.url'', ''u''), (''remote.beta.url'', ''b''),
       (''remote.alpha.url'', ''a''), (''remote.alpha.pushurl'', ''ap''),
       (''remote.github.url'', ''g'')])
   \<and> (\<exists>remotes.
        sortedRemotes [(''remote.origin.url'', ''o''), (''remote.zeta.url'', ''z''),
          (''core.bare'', ''false''), (''remote.upstream.url'', ''u''), (''remote.beta.url'', ''b''),
          (''remote.alpha.url'', ''a''), (''remote.alpha.pushurl'', ''ap''),
          (''remote.github.url'', ''g'')] (Some ''zeta'') = Inr remotes
        \<and> sorted_wrt (precedes (Some ''zeta'')) remotes)
   \<and> getRemoteUrls [(''remote.origin.url'', ''o''), (''remote.zeta.url'', ''z''),
       (''core.bare'', ''false''), (''remote.upstream.url'', ''u''), (''remote.beta.url'', ''b''),
       (''remote.alpha.url'', ''a''), (''remote.alpha.pushurl'', ''ap''),
       (''remote.github.url'', ''g'')] (Some ''zeta'')
     = Inr [''z'', ''u'', ''g'', ''o'', ''ap'', ''a'', ''b'']"
proof -
  let ?cfg = "[(''remote.origin.url'', ''o''), (''remote.zeta.url'', ''z''),
       (''core.bare'', ''false''), (''remote.upstream.url'', ''u''), (''remote.beta.url'', ''b''),
       (''remote.alpha.url'', ''a''), (''remote.alpha.pushurl'', ''ap''),
       (''remote.github.url'', ''g'')]"
  have d: "distinct (map fst ?cfg)" by simp
  have e: "getRemoteUrls ?cfg (Some ''zeta'') = Inr [''z'', ''u'', ''g'', ''o'', ''ap'', ''a'', ''b'']"
    by code_simp
  from getRemoteUrls_ordered [OF d, of "Some ''zeta''"] d e show ?thesis by blast
qed

text \<open>
  Claim C7. Sorting a list of remote entries of which two have the same name and the
  same kind fails with the duplicate-config error of one of the entries, and sorting a
  list without such a pair succeeds; so \<open>getRemoteUrls\<close> fails on a list of
  configuration entries from which two such entries are extracted. Distinct
  configuration keys give entries that differ in name or kind, so for a configuration
  with each key once the error is never raised.
\<close>

theorem duplicate_remote_is_error:
  "(\<not> distinct (map remoteKey remotes) \<longrightarrow>
      (\<exists>r\<in>set remotes. arraySort (compareRemotes branchRemote) remotes
                           = Inl (duplicateConfigError r)))
   \<and> (distinct (map remoteKey remotes) \<longrightarrow>
      (\<exists>sorted. arraySort (compareRemotes branchRemote) remotes = Inr sorted))
   \<and> (\<not> distinct (map remoteKey (remoteEntries entries)) \<longrightarrow>
      (\<exists>r\<in>set (remoteEntries entries).
          getRemoteUrls entries branchRemote = Inl (duplicateConfigError r)))
   \<and> (distinct (map fst cfg) \<longrightarrow>
        distinct (map remoteKey (remoteEntries cfg))
        \<and> (\<exists>urls. getRemoteUrls cfg branchRemote = Inr urls))"
proof (intro conjI impI)
  assume "\<not> distinct (map remoteKey (remoteEntries entries))"
  then have "\<not> distinct (map remoteKey ([] @ remoteEntries entries))" by simp
  from sortFrom_dup [OF _ this, of branchRemote]
  show "\<exists>r\<in>set (remoteEntries entries).
          getRemoteUrls entries branchRemote = Inl (duplicateConfigError r)"
    by (auto simp: getRemoteUrls_def sortedRemotes_def arraySort_def)
next
  assume "\<not> distinct (map remoteKey remotes)"
  then have "\<not> distinct (map remoteKey ([] @ remotes))" by simp
  from sortFrom_dup [OF _ this, of branchRemote]
  show "\<exists>r\<in>set remotes. arraySort (compareRemotes branchRemote) remotes
                           = Inl (duplicateConfigError r)"
    by (simp add: arraySort_def)
next
  assume "distinct (map remoteKey remotes)"
  then have "distinct (map remoteKey ([] @ remotes))" by simp
  from sortFrom_ok [OF _ this, of branchRemote]
  show "\<exists>sorted. arraySort (compareRemotes branchRemote) remotes = Inr sorted"
    by (auto simp: arraySort_def)
next
  assume d: "distinct (map fst cfg)"
  then show k: "distinct (map remoteKey (remoteEntries cfg))"
    by (rule remoteEntries_distinct)
  then have "distinct (map remoteKey ([] @ remoteEntries cfg))" by simp
  from sortFrom_ok [OF _ this, of branchRemote]
  show "\<exists>urls. getRemoteUrls cfg branchRemote = Inr urls"
    by (auto simp: sortedRemotes_def getRemoteUrls_def arraySort_def)
qed

text \<open>
  Witness: a list with a duplicate, a list without, a key given twice, and a
  configuration.
\<close>

theorem duplicate_remote_is_error_witness:
  "\<not> distinct (map remoteKey [\<lparr>name = ''a'', isPush = False, url = ''x''\<rparr>,
                               \<lparr>name = ''b'', isPush = True, url = ''z''\<rparr>,
                               \<lparr>name = ''a'', isPush = False, url = ''y''\<rparr>])
   \<and> arraySort (compareRemotes None) [\<lparr>name = ''a'', isPush = False, url = ''x''\<rparr>,
                               \<lparr>name = ''b'', isPush = True, url = ''z''\<rparr>,
                               \<lparr>name = ''a'', isPush = False, url = ''y''\<rparr>]
       = Inl (newError (''Duplicate config '' @ [CHR 0x27] @ ''remote.a.url'' @ [CHR 0x27]))
   \<and> distinct (map remoteKey [\<lparr>name = ''a'', isPush = False, url = ''x''\<rparr>,
                               \<lparr>name = ''a'', isPush = True, url = ''y''\<rparr>])
   \<and> arraySort (compareRemotes None) [\<lparr>name = ''a'', isPush = False, url = ''x''\<rparr>,
                               \<lparr>name = ''a'', isPush = True, url = ''y''\<rparr>]
       = Inr [\<lparr>name = ''a'', isPush = True, url = ''y''\<rparr>,
              \<lparr>name = ''a'', isPush = False, url = ''x''\<rparr>]
   \<and> \<not> distinct (map remoteKey
          (remoteEntries [(''remote.a.url'', ''x''), (''remote.a.url'', ''y'')]))
   \<and> getRemoteUrls [(''remote.a.url'', ''x''), (''remote.a.url'', ''y'')] None
       = Inl (newError (''Duplicate config '' @ [CHR 0x27] @ ''remote.a.url'' @ [CHR 0x27]))
   \<and> distinct (map fst [(''remote.a.url'', ''x''), (''remote.a.pushurl'', ''y'')])
   \<and> distinct (map remoteKey (remoteEntries [(''remote.a.url'', ''x''), (''remote.a.pushurl'', ''y'')]))
   \<and> getRemoteUrls [(''remote.a.url'', ''x''), (''remote.a.pushurl'', ''y'')] None = Inr [''y'', ''x'']"
proof -
  let ?dup = "[\<lparr>name = ''a'', isPush = False, url = ''x''\<rparr>,
               \<lparr>name = ''b'', isPush = True, url = ''z''\<rparr>,
               \<lparr>name = ''a'', isPush = False, url = ''y''\<rparr>]"
  let ?ok = "[\<lparr>name = ''a'', isPush = False, url = ''x''\<rparr>,
              \<lparr>name = ''a'', isPush = True, url = ''y''\<rparr>]"
  let ?cfg = "[(''remote.a.url'', ''x''), (''remote.a.pushurl'', ''y'')]"
  let ?twice = "[(''remote.a.url'', ''x''), (''remote.a.url'', ''y'')]"
  have 1: "\<not> distinct (map remoteKey ?dup)" by (simp add: remoteKey_def)
  have 2: "arraySort (compareRemotes None) ?dup
       = Inl (newError (''Duplicate config '' @ [CHR 0x27] @ ''remote.a.url'' @ [CHR 0x27]))"
    by code_simp
  have 3: "distinct (map remoteKey ?ok)" by (simp add: remoteKey_def)
  have 4: "arraySort (compareRemotes None) ?ok
       = Inr [\<lparr>name = ''a'', isPush = True, url = ''y''\<rparr>,
              \<lparr>name = ''a'', isPush = False, url = ''x''\<rparr>]"
    by code_simp
  have 5: "distinct (map fst ?cfg)" by simp
  have 6: "getRemoteUrls ?cfg None = Inr [''y'', ''x'']" by code_simp
  have 7: "\<not> distinct (map remoteKey (remoteEntries ?twice))" by code_simp
  have 8: "getRemoteUrls ?twice None
       = Inl (newError (''Duplicate config '' @ [CHR 0x27] @ ''remote.a.url'' @ [CHR 0x27]))"
    by code_simp
  from duplicate_remote_is_error [of ?dup None ?twice ?cfg] 1 2 3 4 5 6 7 8
  show ?thesis by blast
qed

section \<open>Properties of the candidate URLs\<close>

lemma isGitHubHost_iff:
  "isGitHubHost gitHubHostEnv h \<longleftrightarrow>
     h = ''github.com'' \<or> gitHubHostEnv = Some h \<or> (\<exists>sub. h = sub @ ''.github.com'')"
  by (auto simp: isGitHubHost_def endsWith_iff)

lemma tryGitHubUrl_parsed:
  assumes "parse remoteUrl = Inr parsed"
  shows "tryGitHubUrl gitHubHostEnv parse remoteUrl heap =
           (if isGitHubHost gitHubHostEnv (hostname parsed) then Some (heap, parsed) else None,
            Suc heap)"
  using assms by (simp add: tryGitHubUrl_def parseGitUrl_def)

lemma tryGitHubUrl_failed:
  assumes "parse remoteUrl = Inl e"
  shows "tryGitHubUrl gitHubHostEnv parse remoteUrl heap = (None, heap)"
  using assms by (simp add: tryGitHubUrl_def parseGitUrl_def)

lemma not_endsWith_example: "\<not> endsWith ''github.com.example.com'' ''.github.com''"
  by (simp add: endsWith_def)

lemma mapGitHubUrls_Cons:
  "fst (mapGitHubUrls env parse (u # us) heap) =
     fst (tryGitHubUrl env parse u heap)
       # fst (mapGitHubUrls env parse us (snd (tryGitHubUrl env parse u heap)))"
  "snd (mapGitHubUrls env parse (u # us) heap) =
     snd (mapGitHubUrls env parse us (snd (tryGitHubUrl env parse u heap)))"
  by (simp_all split: prod.splits)

lemma mapGitHubUrls_heap: "heap \<le> snd (mapGitHubUrls env parse urls heap)"
proof (induction urls arbitrary: heap)
  case Nil
  then show ?case by simp
next
  case (Cons u urls)
  show ?case
  proof (cases "parse u")
    case (Inl e)
    with Cons [of heap] show ?thesis
      by (simp add: mapGitHubUrls_Cons tryGitHubUrl_failed del: mapGitHubUrls.simps)
  next
    case (Inr p)
    with Cons [of "Suc heap"] show ?thesis
      by (simp add: mapGitHubUrls_Cons tryGitHubUrl_parsed [of parse u p] del: mapGitHubUrls.simps)
  qed
qed

lemma mapGitHubUrls_objects:
  "map snd (filterBoolean (fst (mapGitHubUrls env parse urls heap)))
      = List.map_filter (candidateOf env parse) urls
   \<and> distinct (map fst (filterBoolean (fst (mapGitHubUrls env parse urls heap))))
   \<and> (\<forall>x\<in>set (filterBoolean (fst (mapGitHubUrls env parse urls heap))). heap \<le> fst x)"
proof (induction urls arbitrary: heap)
  case Nil
  then show ?case by (simp add: filterBoolean_def map_filter_simps)
next
  case (Cons u urls)
  show ?case
  proof (cases "parse u")
    case (Inl e)
    with Cons [of heap] show ?thesis
      by (simp add: mapGitHubUrls_Cons tryGitHubUrl_failed filterBoolean_def
            map_filter_simps candidateOf_def del: mapGitHubUrls.simps)
  next
    case (Inr p)
    show ?thesis
    proof (cases "isGitHubHost env (hostname p)")
      case False
      from Cons [of "Suc heap"] have "\<forall>x\<in>set (filterBoolean
          (fst (mapGitHubUrls env parse urls (Suc heap)))). heap \<le> fst x"
        by auto
      with Inr False Cons [of "Suc heap"] show ?thesis
        by (simp add: mapGitHubUrls_Cons tryGitHubUrl_parsed [of parse u p] filterBoolean_def
              map_filter_simps candidateOf_def del: mapGitHubUrls.simps)
    next
      case True
      from Cons [of "Suc heap"] have "\<forall>x\<in>set (filterBoolean
          (fst (mapGitHubUrls env parse urls (Suc heap)))). heap < fst x"
        by auto
      then have "heap \<notin> fst ` set (filterBoolean
          (fst (mapGitHubUrls env parse urls (Suc heap))))"
        "\<forall>x\<in>set (filterBoolean
          (fst (mapGitHubUrls env parse urls (Suc heap)))). heap \<le> fst x"
        by auto
      with Inr True Cons [of "Suc heap"] show ?thesis
        by (simp add: mapGitHubUrls_Cons tryGitHubUrl_parsed [of parse u p] filterBoolean_def
              map_filter_simps candidateOf_def del: mapGitHubUrls.simps)
    qed
  qed
qed

lemma foldl_setAdd_distinct:
  "distinct (map fst (s @ xs)) \<Longrightarrow> foldl setAdd s xs = s @ xs"
proof (induction xs arbitrary: s)
  case Nil
  then show ?case by simp
next
  case (Cons x xs)
  from Cons.prems have "fst x \<notin> fst ` set s" by auto
  then have "setAdd s x = s @ [x]" by (simp add: setAdd_def)
  moreover from Cons.prems have "distinct (map fst ((s @ [x]) @ xs))" by simp
  ultimately show ?case using Cons.IH [of "s @ [x]"] by simp
qed

lemma newSet_distinct: "distinct (map fst xs) \<Longrightarrow> newSet xs = xs"
  using foldl_setAdd_distinct [of "[]" xs] by (simp add: newSet_def)

lemma candidateOf_Some:
  "candidateOf gitHubHostEnv parse remoteUrl = Some p \<longleftrightarrow>
     parse remoteUrl = Inr p \<and> isGitHubHost gitHubHostEnv (hostname p)"
  by (cases "parse remoteUrl") (auto simp: candidateOf_def)

lemma set_map_filter_Some:
  "set (List.map_filter f xs) = {y. \<exists>x\<in>set xs. f x = Some y}"
  by (induction xs) (auto split: option.splits)

lemma getGitHubUrls_candidates:
  assumes "getRemoteUrls cfg branchRemote = Inr urls"
  shows "\<exists>s. getGitHubUrls gitHubHostEnv parse cfg branchRemote heap = Inr s
           \<and> map snd s = List.map_filter (candidateOf gitHubHostEnv parse) urls"
proof -
  let ?l = "filterBoolean (fst (mapGitHubUrls gitHubHostEnv parse urls heap))"
  from mapGitHubUrls_objects [of gitHubHostEnv parse urls heap]
  have v: "map snd ?l = List.map_filter (candidateOf gitHubHostEnv parse) urls"
    and d: "distinct (map fst ?l)" by simp_all
  have "gitHubUrls gitHubHostEnv parse cfg branchRemote heap = Inr ?l"
    using assms by (simp add: gitHubUrls_def)
  then have "getGitHubUrls gitHubHostEnv parse cfg branchRemote heap = Inr ?l"
    using newSet_distinct [OF d] by (simp add: getGitHubUrls_def)
  with v show ?thesis by blast
qed

text \<open>
  Claim C6. Let \<open>getRemoteUrls\<close> return the remote URLs, and let one of them parse.
  Then \<open>getGitHubUrls\<close> returns the candidates, and the parsed URL is among them
  exactly when its host name is \<^verbatim>\<open>github.com\<close>, or is the value of \<^verbatim>\<open>GITHUB_HOST\<close>,
  or ends with \<^verbatim>\<open>.github.com\<close>. The candidates are exactly the parse results of
  the remote URLs with such a host name, one for every remote URL that parses and
  passes the test. In the callback, the object parsed for the URL is returned under
  the same condition and \<^verbatim>\<open>undefined\<close> otherwise. The host name
  \<^verbatim>\<open>github.com.example.com\<close> passes only if \<^verbatim>\<open>GITHUB_HOST\<close> is set to it.
\<close>

theorem github_host_filter:
  assumes "getRemoteUrls cfg branchRemote = Inr urls"
    and "remoteUrl \<in> set urls"
    and "parse remoteUrl = Inr parsed"
  shows "(\<exists>s. getGitHubUrls gitHubHostEnv parse cfg branchRemote heap = Inr s
            \<and> (parsed \<in> snd ` set s \<longleftrightarrow>
                  hostname parsed = ''github.com'' \<or> gitHubHostEnv = Some (hostname parsed)
                  \<or> (\<exists>sub. hostname parsed = sub @ ''.github.com''))
            \<and> snd ` set s =
                  {p. \<exists>u\<in>set urls. parse u = Inr p
                        \<and> (hostname p = ''github.com'' \<or> gitHubHostEnv = Some (hostname p)
                           \<or> (\<exists>sub. hostname p = sub @ ''.github.com''))}
            \<and> length s =
                  length (filter (\<lambda>u. case parse u of
                                          Inl e \<Rightarrow> False
                                        | Inr p \<Rightarrow> hostname p = ''github.com''
                                            \<or> gitHubHostEnv = Some (hostname p)
                                            \<or> endsWith (hostname p) ''.github.com'') urls))
       \<and> (fst (tryGitHubUrl gitHubHostEnv parse remoteUrl heap) = Some (heap, parsed) \<longleftrightarrow>
            hostname parsed = ''github.com'' \<or> gitHubHostEnv = Some (hostname parsed)
            \<or> (\<exists>sub. hostname parsed = sub @ ''.github.com''))
       \<and> (fst (tryGitHubUrl gitHubHostEnv parse remoteUrl heap) = None \<longleftrightarrow>
            \<not> (hostname parsed = ''github.com'' \<or> gitHubHostEnv = Some (hostname parsed)
               \<or> (\<exists>sub. hostname parsed = sub @ ''.github.com'')))
       \<and> (isGitHubHost gitHubHostEnv ''github.com.example.com'' \<longleftrightarrow>
            gitHubHostEnv = Some ''github.com.example.com'')"
proof (intro conjI)
  from getGitHubUrls_candidates [OF assms(1), of gitHubHostEnv parse heap] obtain s where
    s: "getGitHubUrls gitHubHostEnv parse cfg branchRemote heap = Inr s"
    and v: "map snd s = List.map_filter (candidateOf gitHubHostEnv parse) urls" by blast
  have "snd ` set s = set (map snd s)" by simp
  also have "\<dots> = {p. \<exists>u\<in>set urls. candidateOf gitHubHostEnv parse u = Some p}"
    unfolding v by (rule set_map_filter_Some)
  finally have m: "snd ` set s =
      {p. \<exists>u\<in>set urls. parse u = Inr p \<and> isGitHubHost gitHubHostEnv (hostname p)}"
    by (auto simp: candidateOf_Some)
  have all: "snd ` set s =
      {p. \<exists>u\<in>set urls. parse u = Inr p
            \<and> (hostname p = ''github.com'' \<or> gitHubHostEnv = Some (hostname p)
               \<or> (\<exists>sub. hostname p = sub @ ''.github.com''))}"
    unfolding m isGitHubHost_iff ..
  have one: "parsed \<in> snd ` set s \<longleftrightarrow>
      hostname parsed = ''github.com'' \<or> gitHubHostEnv = Some (hostname parsed)
      \<or> (\<exists>sub. hostname parsed = sub @ ''.github.com'')"
    unfolding all using assms(2,3) by blast
  have f: "(\<lambda>u. case parse u of
                  Inl e \<Rightarrow> False
                | Inr p \<Rightarrow> hostname p = ''github.com''
                    \<or> gitHubHostEnv = Some (hostname p)
                    \<or> endsWith (hostname p) ''.github.com'')
         = (\<lambda>u. candidateOf gitHubHostEnv parse u \<noteq> None)"
    by (auto simp: fun_eq_iff candidateOf_def isGitHubHost_def split: sum.splits)
  have "length s = length (map snd s)" by simp
  also have "\<dots> = length (filter (\<lambda>u. candidateOf gitHubHostEnv parse u \<noteq> None) urls)"
    unfolding v by (simp add: List.map_filter_def)
  finally have len: "length s =
      length (filter (\<lambda>u. case parse u of
                          Inl e \<Rightarrow> False
                        | Inr p \<Rightarrow> hostname p = ''github.com''
                            \<or> gitHubHostEnv = Some (hostname p)
                            \<or> endsWith (hostname p) ''.github.com'') urls)"
    unfolding f .
  from s one all len
  show "\<exists>s. getGitHubUrls gitHubHostEnv parse cfg branchRemote heap = Inr s
            \<and> (parsed \<in> snd ` set s \<longleftrightarrow>
                  hostname parsed = ''github.com'' \<or> gitHubHostEnv = Some (hostname parsed)
                  \<or> (\<exists>sub. hostname parsed = sub @ ''.github.com''))
            \<and> snd ` set s =
                  {p. \<exists>u\<in>set urls. parse u = Inr p
                        \<and> (hostname p = ''github.com'' \<or> gitHubHostEnv = Some (hostname p)
                           \<or> (\<exists>sub. hostname p = sub @ ''.github.com''))}
            \<and> length s =
                  length (filter (\<lambda>u. case parse u of
                                          Inl e \<Rightarrow> False
                                        | Inr p \<Rightarrow> hostname p = ''github.com''
                                            \<or> gitHubHostEnv = Some (hostname p)
                                            \<or> endsWith (hostname p) ''.github.com'') urls)"
    by blast
  show "fst (tryGitHubUrl gitHubHostEnv parse remoteUrl heap) = Some (heap, parsed) \<longleftrightarrow>
            hostname parsed = ''github.com'' \<or> gitHubHostEnv = Some (hostname parsed)
            \<or> (\<exists>sub. hostname parsed = sub @ ''.github.com'')"
    by (simp add: tryGitHubUrl_parsed [of parse remoteUrl parsed, OF assms(3)]
          flip: isGitHubHost_iff)
  show "fst (tryGitHubUrl gitHubHostEnv parse remoteUrl heap) = None \<longleftrightarrow>
            \<not> (hostname parsed = ''github.com'' \<or> gitHubHostEnv = Some (hostname parsed)
               \<or> (\<exists>sub. hostname parsed = sub @ ''.github.com''))"
    by (simp add: tryGitHubUrl_parsed [of parse remoteUrl parsed, OF assms(3)]
          flip: isGitHubHost_iff)
  show "isGitHubHost gitHubHostEnv ''github.com.example.com'' \<longleftrightarrow>
            gitHubHostEnv = Some ''github.com.example.com''"
    using not_endsWith_example by (auto simp: isGitHubHost_def)
qed

text \<open>
  Witness: two remotes with \<^verbatim>\<open>GITHUB_HOST\<close> unset, one on a subdomain of
  \<^verbatim>\<open>github.com\<close>, which is kept, and one on \<^verbatim>\<open>github.com.example.com\<close>, which is
  not.
\<close>

theorem github_host_filter_witness:
  "getRemoteUrls [(''remote.a.url'', ''https://example.github.com/a/b''),
                  (''remote.b.url'', ''https://github.com.example.com/a/b'')] None
     = Inr [''https://example.github.com/a/b'', ''https://github.com.example.com/a/b'']
   \<and> getGitHubUrls None
        (\<lambda>u. if u = ''https://example.github.com/a/b''
                then Inr \<lparr>hostname = ''example.github.com'', pathname = ''/a/b''\<rparr>
              else if u = ''https://github.com.example.com/a/b''
                then Inr \<lparr>hostname = ''github.com.example.com'', pathname = ''/a/b''\<rparr>
              else Inl (newError ''Invalid URL''))
        [(''remote.a.url'', ''https://example.github.com/a/b''),
         (''remote.b.url'', ''https://github.com.example.com/a/b'')] None 0
     = Inr [(0, \<lparr>hostname = ''example.github.com'', pathname = ''/a/b''\<rparr>)]
   \<and> \<lparr>hostname = ''example.github.com'', pathname = ''/a/b''\<rparr>
       \<in> snd ` set [(0 :: nat, \<lparr>hostname = ''example.github.com'', pathname = ''/a/b''\<rparr>)]
   \<and> \<lparr>hostname = ''github.com.example.com'', pathname = ''/a/b''\<rparr>
       \<notin> snd ` set [(0 :: nat, \<lparr>hostname = ''example.github.com'', pathname = ''/a/b''\<rparr>)]
   \<and> ''example.github.com'' = ''example'' @ ''.github.com''
   \<and> \<not> isGitHubHost None ''github.com.example.com''"
proof -
  let ?ua = "''https://example.github.com/a/b''"
  let ?ub = "''https://github.com.example.com/a/b''"
  let ?A = "\<lparr>hostname = ''example.github.com'', pathname = ''/a/b''\<rparr>"
  let ?B = "\<lparr>hostname = ''github.com.example.com'', pathname = ''/a/b''\<rparr>"
  let ?parse = "\<lambda>u. if u = ?ua then Inr ?A else if u = ?ub then Inr ?B
                  else Inl (newError ''Invalid URL'')"
  let ?cfg = "[(''remote.a.url'', ?ua), (''remote.b.url'', ?ub)]"
  have r: "getRemoteUrls ?cfg None = Inr [?ua, ?ub]"
    by code_simp
  have g: "getGitHubUrls None ?parse ?cfg None 0 = Inr [(0, ?A)]"
    by (simp add: getGitHubUrls_def gitHubUrls_def r tryGitHubUrl_def parseGitUrl_def
          isGitHubHost_def endsWith_def filterBoolean_def newSet_def setAdd_def)
  have ia: "?ua \<in> set [?ua, ?ub]" by simp
  have pa: "?parse ?ua = Inr ?A" by simp
  have ha: "hostname ?A = ''example'' @ ''.github.com''" by simp
  from github_host_filter
         [where parse = ?parse and remoteUrl = ?ua and parsed = ?A
            and gitHubHostEnv = None and heap = 0, OF r ia pa]
  obtain s where
    s: "getGitHubUrls None ?parse ?cfg None 0 = Inr s"
    and ka: "?A \<in> snd ` set s \<longleftrightarrow>
        hostname ?A = ''github.com'' \<or> None = Some (hostname ?A)
        \<or> (\<exists>sub. hostname ?A = sub @ ''.github.com'')"
    and ex: "isGitHubHost None ''github.com.example.com'' \<longleftrightarrow>
        None = Some ''github.com.example.com''"
    by blast
  from s g have eq: "s = [(0, ?A)]" by simp
  from ka ha have "?A \<in> snd ` set s" by blast
  then have a: "?A \<in> snd ` set [(0 :: nat, ?A)]" unfolding eq .
  have b: "?B \<notin> snd ` set [(0 :: nat, ?A)]" by simp
  from ex have n: "\<not> isGitHubHost None ''github.com.example.com''" by simp
  have c: "''example.github.com'' = ''example'' @ ''.github.com''" by simp
  from r g a b c n show ?thesis by blast
qed

text \<open>
  Claim C9. The set built by \<open>getGitHubUrls\<close> equals the array it is built from: no
  element is removed. When \<open>getRemoteUrls\<close> returns the URLs, the candidates are, in
  that order, the parsed URLs that pass the host test, one for every such remote URL,
  and they are pairwise different objects.
\<close>

theorem getGitHubUrls_keeps_all:
  "getGitHubUrls gitHubHostEnv parse cfg branchRemote heap
     = gitHubUrls gitHubHostEnv parse cfg branchRemote heap
   \<and> (getRemoteUrls cfg branchRemote = Inr urls \<longrightarrow>
        (\<exists>s. getGitHubUrls gitHubHostEnv parse cfg branchRemote heap = Inr s
             \<and> map snd s = List.map_filter (candidateOf gitHubHostEnv parse) urls
             \<and> distinct (map fst s)))"
proof (cases "getRemoteUrls cfg branchRemote")
  case (Inl e)
  then show ?thesis by (simp add: getGitHubUrls_def gitHubUrls_def)
next
  case (Inr us)
  let ?l = "filterBoolean (fst (mapGitHubUrls gitHubHostEnv parse us heap))"
  from mapGitHubUrls_objects [of gitHubHostEnv parse us heap]
  have v: "map snd ?l = List.map_filter (candidateOf gitHubHostEnv parse) us"
    and d: "distinct (map fst ?l)" by simp_all
  have g: "gitHubUrls gitHubHostEnv parse cfg branchRemote heap = Inr ?l"
    using Inr by (simp add: gitHubUrls_def)
  have gg: "getGitHubUrls gitHubHostEnv parse cfg branchRemote heap = Inr ?l"
    using g newSet_distinct [OF d] by (simp add: getGitHubUrls_def)
  from g gg v d Inr show ?thesis by auto
qed

text \<open>Witness: two remotes with the same URL; both are candidates.\<close>

theorem getGitHubUrls_keeps_all_witness:
  "getRemoteUrls [(''remote.a.url'', ''https://github.com/o/r''),
                  (''remote.b.url'', ''https://github.com/o/r'')] None
     = Inr [''https://github.com/o/r'', ''https://github.com/o/r'']
   \<and> getGitHubUrls None
        (\<lambda>u. if u = ''https://github.com/o/r''
              then Inr \<lparr>hostname = ''github.com'', pathname = ''/o/r''\<rparr>
              else Inl (newError ''Invalid URL''))
        [(''remote.a.url'', ''https://github.com/o/r''),
         (''remote.b.url'', ''https://github.com/o/r'')] None 0
     = Inr [(0, \<lparr>hostname = ''github.com'', pathname = ''/o/r''\<rparr>),
            (1, \<lparr>hostname = ''github.com'', pathname = ''/o/r''\<rparr>)]"
proof -
  let ?cfg = "[(''remote.a.url'', ''https://github.com/o/r''),
               (''remote.b.url'', ''https://github.com/o/r'')]"
  let ?parse = "\<lambda>u. if u = ''https://github.com/o/r''
              then Inr \<lparr>hostname = ''github.com'', pathname = ''/o/r''\<rparr>
              else Inl (newError ''Invalid URL'')"
  have r: "getRemoteUrls ?cfg None = Inr [''https://github.com/o/r'', ''https://github.com/o/r'']"
    by code_simp
  have l: "gitHubUrls None ?parse ?cfg None 0
     = Inr [(0, \<lparr>hostname = ''github.com'', pathname = ''/o/r''\<rparr>),
            (1, \<lparr>hostname = ''github.com'', pathname = ''/o/r''\<rparr>)]"
    by (simp add: gitHubUrls_def r tryGitHubUrl_def parseGitUrl_def isGitHubHost_def
          filterBoolean_def map_filter_simps)
  from getGitHubUrls_keeps_all [of None ?parse ?cfg None 0] l r show ?thesis by simp
qed

section \<open>Properties of the project name\<close>

lemma stripGit_Nil: "stripGit [] = []"
  by (simp add: stripGit_def endsWith_def)

lemma projectOfParts:
  "(let pathParts = ps
    in if length pathParts \<noteq> 3 then None
       else if pathParts ! 0 \<noteq> '''' then None
       else if pathParts ! 1 = '''' then None
       else if pathParts ! 2 = '''' then None
       else
         let repo = stripGit (pathParts ! 2)
         in if repo = '''' then None else Some (pathParts ! 1, repo))
   = (case ps of
        [s0, s1, s2] \<Rightarrow>
          if s0 = '''' \<and> s1 \<noteq> '''' \<and> stripGit s2 \<noteq> ''''
          then Some (s1, stripGit s2) else None
      | _ \<Rightarrow> None)"
  by (auto simp: Let_def stripGit_Nil split: list.splits)

lemma projectOfUrl_shape:
  "projectOfUrl u =
     (if validShape (pathname u) then Some (identityOf (pathname u)) else None)"
  unfolding projectOfUrl_def projectOfParts validShape_def identityOf_def
  by (simp split: list.splits)

lemma firstProject_find:
  "firstProject urls =
     (case List.find (\<lambda>x. validShape (pathname (snd x))) urls of
        None \<Rightarrow> None
      | Some x \<Rightarrow> Some (identityOf (pathname (snd x))))"
  by (induction urls) (simp_all add: projectOfUrl_shape)

lemma split_no_separator: "c \<notin> set s \<Longrightarrow> split c s = [s]"
  by (induction s) auto

lemma split_segment: "c \<notin> set a \<Longrightarrow> split c (a @ c # rest) = a # split c rest"
  by (induction a) (auto split: list.splits)

lemma split_owner_repo:
  assumes "CHR ''/'' \<notin> set owner" "CHR ''/'' \<notin> set repo"
  shows "split CHR ''/'' (''/'' @ owner @ ''/'' @ repo) = ['''', owner, repo]"
proof -
  have "split CHR ''/'' (owner @ CHR ''/'' # repo) = [owner, repo]"
    using assms by (simp add: split_segment split_no_separator)
  then show ?thesis by simp
qed

text \<open>
  Claim C5. One URL yields a project identity exactly when its path has the shape of
  the specification: split on the slash, three segments, the first empty, the second
  non-empty and the third non-empty once a trailing \<^verbatim>\<open>.git\<close> is stripped; the
  identity is then the second segment and the stripped third. For a path
  \<^verbatim>\<open>/owner/repo\<close> without further slashes this says that the owner and the stripped
  repo are non-empty. The loop returns the identity of the first URL of that shape and
  skips the others; \<open>getProjectName\<close> returns it, and fails only when no URL has the
  shape. The paths \<^verbatim>\<open>/foo\<close>, \<^verbatim>\<open>/foo/bar/baz\<close>, \<^verbatim>\<open>/foo/\<close> and \<^verbatim>\<open>/foo/.git\<close> do not
  have the shape.
\<close>

theorem project_identity_shape:
  "(projectOfUrl u \<noteq> None \<longleftrightarrow> validShape (pathname u))
   \<and> (validShape (pathname u) \<longrightarrow>
        projectOfUrl u = Some (split CHR ''/'' (pathname u) ! 1,
                               stripGit (split CHR ''/'' (pathname u) ! 2)))
   \<and> (CHR ''/'' \<notin> set owner \<and> CHR ''/'' \<notin> set repo \<longrightarrow>
        (validShape (''/'' @ owner @ ''/'' @ repo) \<longleftrightarrow> owner \<noteq> '''' \<and> stripGit repo \<noteq> '''')
        \<and> identityOf (''/'' @ owner @ ''/'' @ repo) = (owner, stripGit repo))
   \<and> firstProject urls =
        (case List.find (\<lambda>x. validShape (pathname (snd x))) urls of
           None \<Rightarrow> None
         | Some x \<Rightarrow> Some (identityOf (pathname (snd x))))
   \<and> (getGitHubUrls gitHubHostEnv parse cfg (branchRemoteOf branch cfg) heap = Inr urls \<longrightarrow>
        getProjectName gitHubHostEnv parse branch cfg heap =
          (case List.find (\<lambda>x. validShape (pathname (snd x))) urls of
             None \<Rightarrow> Inl (newError (''Unable to determine GitHub project name: ''
                                      @ ''No GitHub remote URLs recognized.''))
           | Some x \<Rightarrow> Inr (identityOf (pathname (snd x)))))
   \<and> \<not> validShape ''/foo'' \<and> \<not> validShape ''/foo/bar/baz''
   \<and> \<not> validShape ''/foo/'' \<and> \<not> validShape ''/foo/.git''"
proof (intro conjI impI)
  show "projectOfUrl u \<noteq> None \<longleftrightarrow> validShape (pathname u)"
    by (simp add: projectOfUrl_shape)
  show "firstProject urls =
        (case List.find (\<lambda>x. validShape (pathname (snd x))) urls of
           None \<Rightarrow> None
         | Some x \<Rightarrow> Some (identityOf (pathname (snd x))))"
    by (rule firstProject_find)
  show "\<not> validShape ''/foo''" by (simp add: validShape_def)
  show "\<not> validShape ''/foo/bar/baz''" by (simp add: validShape_def)
  show "\<not> validShape ''/foo/''" by (simp add: validShape_def stripGit_Nil)
  show "\<not> validShape ''/foo/.git''" by (simp add: validShape_def stripGit_def endsWith_def)
next
  assume "validShape (pathname u)"
  then show "projectOfUrl u = Some (split CHR ''/'' (pathname u) ! 1,
                               stripGit (split CHR ''/'' (pathname u) ! 2))"
    by (simp add: projectOfUrl_shape identityOf_def)
next
  assume "getGitHubUrls gitHubHostEnv parse cfg (branchRemoteOf branch cfg) heap = Inr urls"
  then show "getProjectName gitHubHostEnv parse branch cfg heap =
          (case List.find (\<lambda>x. validShape (pathname (snd x))) urls of
             None \<Rightarrow> Inl (newError (''Unable to determine GitHub project name: ''
                                      @ ''No GitHub remote URLs recognized.''))
           | Some x \<Rightarrow> Inr (identityOf (pathname (snd x))))"
    by (simp add: getProjectName_def firstProject_find split: option.splits)
next
  assume a: "CHR ''/'' \<notin> set owner \<and> CHR ''/'' \<notin> set repo"
  then have s: "split CHR ''/'' (''/'' @ owner @ ''/'' @ repo) = ['''', owner, repo]"
    by (intro split_owner_repo) simp_all
  show "validShape (''/'' @ owner @ ''/'' @ repo) \<longleftrightarrow> owner \<noteq> '''' \<and> stripGit repo \<noteq> ''''"
    unfolding validShape_def s by simp
  show "identityOf (''/'' @ owner @ ''/'' @ repo) = (owner, stripGit repo)"
    unfolding identityOf_def s by simp
qed

text \<open>
  Witness: two remotes; the first candidate has the path \<^verbatim>\<open>/foo.git\<close> and is
  skipped, the second yields the identity.
\<close>

theorem project_identity_shape_witness:
  "validShape ''/kevinoid/hub-ci-status.git''
   \<and> projectOfUrl \<lparr>hostname = ''github.com'', pathname = ''/kevinoid/hub-ci-status.git''\<rparr>
       = Some (''kevinoid'', ''hub-ci-status'')
   \<and> CHR ''/'' \<notin> set ''kevinoid'' \<and> CHR ''/'' \<notin> set ''hub-ci-status.git''
   \<and> identityOf ''/kevinoid/hub-ci-status.git'' = (''kevinoid'', ''hub-ci-status'')
   \<and> getGitHubUrls None
        (\<lambda>u. if u = ''https://github.com/foo.git''
                then Inr \<lparr>hostname = ''github.com'', pathname = ''/foo.git''\<rparr>
              else if u = ''https://github.com/kevinoid/hub-ci-status.git''
                then Inr \<lparr>hostname = ''github.com'', pathname = ''/kevinoid/hub-ci-status.git''\<rparr>
              else Inl (newError ''Invalid URL''))
        [(''remote.remote1.url'', ''https://github.com/kevinoid/hub-ci-status.git''),
         (''remote.aremote.url'', ''https://github.com/foo.git'')]
        (branchRemoteOf None
          [(''remote.remote1.url'', ''https://github.com/kevinoid/hub-ci-status.git''),
           (''remote.aremote.url'', ''https://github.com/foo.git'')]) 0
       = Inr [(0, \<lparr>hostname = ''github.com'', pathname = ''/foo.git''\<rparr>),
              (1, \<lparr>hostname = ''github.com'', pathname = ''/kevinoid/hub-ci-status.git''\<rparr>)]
   \<and> getProjectName None
        (\<lambda>u. if u = ''https://github.com/foo.git''
                then Inr \<lparr>hostname = ''github.com'', pathname = ''/foo.git''\<rparr>
              else if u = ''https://github.com/kevinoid/hub-ci-status.git''
                then Inr \<lparr>hostname = ''github.com'', pathname = ''/kevinoid/hub-ci-status.git''\<rparr>
              else Inl (newError ''Invalid URL''))
        None
        [(''remote.remote1.url'', ''https://github.com/kevinoid/hub-ci-status.git''),
         (''remote.aremote.url'', ''https://github.com/foo.git'')] 0
       = Inr (''kevinoid'', ''hub-ci-status'')"
proof -
  let ?good = "\<lparr>hostname = ''github.com'', pathname = ''/kevinoid/hub-ci-status.git''\<rparr>"
  let ?bad = "\<lparr>hostname = ''github.com'', pathname = ''/foo.git''\<rparr>"
  let ?parse = "\<lambda>u. if u = ''https://github.com/foo.git'' then Inr ?bad
              else if u = ''https://github.com/kevinoid/hub-ci-status.git'' then Inr ?good
              else Inl (newError ''Invalid URL'')"
  let ?cfg = "[(''remote.remote1.url'', ''https://github.com/kevinoid/hub-ci-status.git''),
               (''remote.aremote.url'', ''https://github.com/foo.git'')]"
  have v: "validShape ''/kevinoid/hub-ci-status.git''"
    by (simp add: validShape_def stripGit_def endsWith_def)
  have nb: "\<not> validShape ''/foo.git''"
    by (simp add: validShape_def)
  have i: "identityOf ''/kevinoid/hub-ci-status.git'' = (''kevinoid'', ''hub-ci-status'')"
    by (simp add: identityOf_def stripGit_def endsWith_def)
  have o: "CHR ''/'' \<notin> set ''kevinoid''" "CHR ''/'' \<notin> set ''hub-ci-status.git''"
    by simp_all
  have r: "getRemoteUrls ?cfg None
      = Inr [''https://github.com/foo.git'', ''https://github.com/kevinoid/hub-ci-status.git'']"
    by code_simp
  have b: "branchRemoteOf None ?cfg = None"
    by (simp add: branchRemoteOf_def)
  have g: "getGitHubUrls None ?parse ?cfg (branchRemoteOf None ?cfg) 0 = Inr [(0, ?bad), (1, ?good)]"
    unfolding b
    by (simp add: getGitHubUrls_def gitHubUrls_def r tryGitHubUrl_def parseGitUrl_def
          isGitHubHost_def filterBoolean_def map_filter_simps newSet_def setAdd_def)
  from project_identity_shape
         [of ?good "''kevinoid''" "''hub-ci-status.git''" "[(0, ?bad), (1, ?good)]"
             None ?parse ?cfg None 0]
    v nb i o g
  show ?thesis by simp
qed

text \<open>
  Claim C3. With a configuration that has no remote URL, \<open>getProjectName\<close> fails with
  the descriptive message, but the error is a plain \<^verbatim>\<open>Error\<close>: its name is
  \<^verbatim>\<open>Error\<close>, not \<^verbatim>\<open>UnknownProjectError\<close>.
\<close>

theorem getProjectName_error_name:
  "getProjectName gitHubHostEnv parse branch
       [(''core.repositoryformatversion'', ''0''), (''core.bare'', ''false'')] heap
     = Inl (JsError ''Error''
              ''Unable to determine GitHub project name: No GitHub remote URLs recognized.'')
   \<and> errName (JsError ''Error''
              ''Unable to determine GitHub project name: No GitHub remote URLs recognized.'')
       \<noteq> ''UnknownProjectError''"
  by (simp add: getProjectName_def getGitHubUrls_def gitHubUrls_def getRemoteUrls_def
        sortedRemotes_def arraySort_def remoteEntries_def map_filter_simps matchRemoteKey_def
        filterBoolean_def newSet_def newError_def)

end
